theory Spec2Isabelle
  imports Complex_Main "HOL-Library.Word" "HOL-Library.Multiset" "HOL-Library.Log_Nat"
begin

section \<open>Values\<close>

text \<open>
  Document identifiers (ObjectId values) are compared through their string form in the
  handlers; an identifier is a natural number here, and two identifiers are equal exactly
  when their string forms are. A JavaScript string is a sequence of UTF-16 code units:
  \<open>length\<close>, \<open>substring\<close> and the regular expressions of \<open>Blog.js\<close> all work on
  code units.
\<close>

type_synonym oid = nat
type_synonym jschar = "16 word"
type_synonym jsstring = "jschar list"

definition js :: "string \<Rightarrow> jsstring" where
  "js s = map (\<lambda>c. of_nat (of_char c)) s"

subsection \<open>Array operations used by the handlers\<close>

text \<open>\<open>Array.prototype.indexOf\<close>: the first index holding the value, \<open>-1\<close> when absent.\<close>

fun indexOf :: "'a list \<Rightarrow> 'a \<Rightarrow> int" where
  "indexOf [] x = -1"
| "indexOf (y # ys) x =
     (if y = x then 0 else (let i = indexOf ys x in if i = -1 then -1 else i + 1))"

text \<open>
  \<open>Array.prototype.splice(start, deleteCount)\<close> without inserted items: the array that is
  left. A negative \<open>start\<close> counts from the end, and \<open>start\<close> is clamped to the array.
\<close>

definition splice_js :: "'a list \<Rightarrow> int \<Rightarrow> nat \<Rightarrow> 'a list" where
  "splice_js xs start deleteCount =
     (let n = int (length xs);
          s = (if start < 0 then max (n + start) 0 else min start n)
      in take (nat s) xs @ drop (nat s + deleteCount) xs)"

text \<open>\<open>push\<close> appends one element.\<close>

definition push :: "'a list \<Rightarrow> 'a \<Rightarrow> 'a list" where
  "push xs x = xs @ [x]"

subsection \<open>Numbers\<close>

text \<open>
  A JavaScript number is an IEEE double. The numbers of the handlers are integers, and an
  integer stands for the double of that value. \<open>to_double\<close> is the double nearest to an
  integer (ties to the even significand of 53 bits): it is what \<open>parseInt\<close> returns for
  the integer that a string writes, and what an arithmetic operation returns for its exact
  result. Integers of magnitude below \<open>2^53\<close> are doubles themselves. The model holds
  for magnitudes below \<open>2^1024\<close>, where JavaScript has no \<open>Infinity\<close> yet.
\<close>

definition to_double :: "int \<Rightarrow> int" where
  "to_double x =
     (let a = \<bar>x\<bar>
      in if a < 2 ^ 53 then x
         else
           (let e = nat (bitlen a) - 53;
                q = a div 2 ^ e;
                r = a mod 2 ^ e;
                h = 2 ^ (e - 1);
                m = (if r > h \<or> (r = h \<and> odd q) then q + 1 else q)
            in sgn x * m * 2 ^ e))"

definition minus_js :: "int \<Rightarrow> int \<Rightarrow> int" where
  "minus_js a b = to_double (a - b)"

definition times_js :: "int \<Rightarrow> int \<Rightarrow> int" where
  "times_js a b = to_double (a * b)"

text \<open>
  \<open>Math.ceil(a / b)\<close> on integers, \<open>b\<close> not zero. The dividend of the handlers is a
  number of documents, below \<open>2^53\<close>, for which the ceiling of the rounded quotient is
  the ceiling of the exact one.
\<close>

definition ceil_div :: "int \<Rightarrow> int \<Rightarrow> int" where
  "ceil_div a b = - ((- a) div b)"

text \<open>White space and line terminators: what \<open>\s\<close> matches and what \<open>trim\<close> removes.\<close>

definition is_space :: "jschar \<Rightarrow> bool" where
  "is_space c =
     (c \<in> {0x9, 0xA, 0xB, 0xC, 0xD, 0x20, 0xA0, 0x1680, 0x2028, 0x2029, 0x202F, 0x205F,
            0x3000, 0xFEFF}
      \<or> (0x2000 \<le> c \<and> c \<le> 0x200A))"

text \<open>\<open>x.trim()\<close>, the setter of the schema option \<open>trim: true\<close>.\<close>

definition trim :: "jsstring \<Rightarrow> jsstring" where
  "trim s = rev (dropWhile is_space (rev (dropWhile is_space s)))"

section \<open>The Blog model (\<open>backend/models/Blog.js\<close>)\<close>

record seo =
  metaTitle :: "jsstring option"
  metaDescription :: "jsstring option"
  seo_keywords :: "jsstring list"

record blog =
  blog_id :: oid
  title :: jsstring
  content :: jsstring
  excerpt :: jsstring
  author :: oid
  tags :: "jsstring list"
  category :: string
  featuredImage :: jsstring
  status :: string
  isPublic :: bool
  likes :: "oid list"
  views :: nat
  readTime :: int
  blog_seo :: "seo option"
  comments :: "oid list"
  createdAt :: nat

text \<open>The virtual \<open>likeCount\<close>.\<close>

definition likeCount :: "blog \<Rightarrow> nat" where
  "likeCount b = length (likes b)"

subsection \<open>Regular expressions of the model\<close>

text \<open>
  \<open>s.split(/\s+/)\<close>: the pieces of \<open>s\<close> between the maximal runs of white space. A run at
  the start or at the end of \<open>s\<close> leaves an empty piece there, and the empty string
  splits into one empty piece.
\<close>

function split_ws :: "jsstring \<Rightarrow> jsstring list" where
  "split_ws [] = [[]]"
| "split_ws (c # cs) =
     (if is_space c then [] # split_ws (dropWhile is_space cs)
      else (case split_ws cs of [] \<Rightarrow> [[c]] | p # ps \<Rightarrow> (c # p) # ps))"
  by pat_completeness auto
termination
  by (relation "measure length") (auto simp: le_imp_less_Suc length_dropWhile_le)

text \<open>
  The number of maximal runs of white space in a string: \<open>n\<close> runs separate
  \<open>n + 1\<close> pieces.
\<close>

fun ws_runs :: "jsstring \<Rightarrow> nat" where
  "ws_runs [] = 0"
| "ws_runs [c] = (if is_space c then 1 else 0)"
| "ws_runs (c # d # cs) = (if is_space c \<and> \<not> is_space d then 1 else 0) + ws_runs (d # cs)"

text \<open>
  The white-space-separated tokens of a string, in the words of the specification: its
  maximal runs of code units that are not white space.
\<close>

function ws_tokens :: "jsstring \<Rightarrow> jsstring list" where
  "ws_tokens [] = []"
| "ws_tokens (c # cs) =
     (if is_space c then ws_tokens cs
      else (c # takeWhile (\<lambda>d. \<not> is_space d) cs)
             # ws_tokens (dropWhile (\<lambda>d. \<not> is_space d) cs))"
  by pat_completeness auto
termination
  by (relation "measure length") (auto simp: le_imp_less_Suc length_dropWhile_le)

definition LT :: jschar where "LT = 0x3C"
definition GT :: jschar where "GT = 0x3E"

text \<open>
  \<open>s.replace(/<[^>]*>/g, '')\<close>: scanning from the left, a \<open><\<close> that has a \<open>>\<close> after it
  is removed together with everything up to and including the first such \<open>>\<close>; any other
  code unit is kept.
\<close>

function strip_tags :: "jsstring \<Rightarrow> jsstring" where
  "strip_tags [] = []"
| "strip_tags (c # cs) =
     (if c = LT \<and> GT \<in> set cs then strip_tags (tl (dropWhile (\<lambda>d. d \<noteq> GT) cs))
      else c # strip_tags cs)"
  by pat_completeness auto
termination
proof (relation "measure length")
  fix c :: jschar and cs :: jsstring
  have "length (tl (dropWhile (\<lambda>d. d \<noteq> GT) cs)) \<le> length cs"
    using length_dropWhile_le [of "\<lambda>d. d \<noteq> GT" cs] by simp
  then show "(tl (dropWhile (\<lambda>d. d \<noteq> GT) cs), c # cs) \<in> measure length"
    by simp
qed simp_all

subsection \<open>Methods and the pre-save hook\<close>

definition calculateReadTime :: "blog \<Rightarrow> blog" where
  "calculateReadTime b =
     (let wordsPerMinute = 200;
          wordCount = length (split_ws (content b))
      in b\<lparr>readTime := ceil_div (int wordCount) wordsPerMinute\<rparr>)"

definition generateExcerpt :: "blog \<Rightarrow> blog" where
  "generateExcerpt b =
     (let plainText = strip_tags (content b)
      in b\<lparr>excerpt := (if length plainText > 300 then take 297 plainText @ js ''...''
                       else plainText)\<rparr>)"

text \<open>
  The hook registered with \<open>pre('save')\<close>. Its argument \<open>content_modified\<close> is the value
  of \<open>this.isModified('content')\<close> at the save.
\<close>

definition pre_save :: "bool \<Rightarrow> blog \<Rightarrow> blog" where
  "pre_save content_modified b =
     (if content_modified then generateExcerpt (calculateReadTime b) else b)"

text \<open>
  Schema validation, run by \<open>save\<close> before the hook: \<open>required\<close>, \<open>maxlength\<close> and
  \<open>enum\<close> of the schema, each on its own path.
\<close>

definition categories :: "string list" where
  "categories = [''Technology'', ''Lifestyle'', ''Travel'', ''Food'', ''Health'', ''Business'',
                 ''Education'', ''Entertainment'', ''Other'']"

definition statuses :: "string list" where
  "statuses = [''draft'', ''published'', ''archived'']"

definition title_ok :: "blog \<Rightarrow> bool" where
  "title_ok b = (title b \<noteq> [] \<and> length (title b) \<le> 200)"

definition content_ok :: "blog \<Rightarrow> bool" where
  "content_ok b = (content b \<noteq> [])"

definition excerpt_ok :: "blog \<Rightarrow> bool" where
  "excerpt_ok b = (length (excerpt b) \<le> 300)"

definition tags_ok :: "blog \<Rightarrow> bool" where
  "tags_ok b = list_all (\<lambda>t. length t \<le> 20) (tags b)"

definition category_ok :: "blog \<Rightarrow> bool" where
  "category_ok b = (category b \<in> set categories)"

definition status_ok :: "blog \<Rightarrow> bool" where
  "status_ok b = (status b \<in> set statuses)"

text \<open>A new document is validated on every path.\<close>

definition validate_new :: "blog \<Rightarrow> bool" where
  "validate_new b =
     (title_ok b \<and> content_ok b \<and> excerpt_ok b \<and> tags_ok b \<and> category_ok b \<and> status_ok b)"

text \<open>A stored document is validated on the paths that the request changed.\<close>

definition validate_modified :: "blog \<Rightarrow> blog \<Rightarrow> bool" where
  "validate_modified old new =
     ((title new = title old \<or> title_ok new) \<and>
      (content new = content old \<or> content_ok new) \<and>
      (excerpt new = excerpt old \<or> excerpt_ok new) \<and>
      (tags new = tags old \<or> tags_ok new) \<and>
      (category new = category old \<or> category_ok new) \<and>
      (status new = status old \<or> status_ok new))"

section \<open>Users and comments\<close>

text \<open>
  Modelled from the spec: the User model (\<open>backend/models/User.js\<close> is not among the
  sources). An account has a unique username, the optional name fields of the profile, a
  role (\<open>user\<close> or \<open>admin\<close>) and the reference arrays \<open>followers\<close> and
  \<open>following\<close>.
\<close>

record user =
  user_id :: oid
  username :: jsstring
  firstName :: "jsstring option"
  lastName :: "jsstring option"
  role :: string
  followers :: "oid list"
  following :: "oid list"
  user_createdAt :: nat

text \<open>
  Modelled from the spec: the Comment model (\<open>backend/models/Comment.js\<close> is not among
  the sources). A comment has its content, an author, a blog, an optional parent comment,
  the array of its replies (written by the creation handler), a like array, the
  soft-delete flag and the edited flag.
\<close>

record comment =
  comment_id :: oid
  comment_content :: jsstring
  comment_author :: oid
  comment_blog :: oid
  parentComment :: "oid option"
  replies :: "oid list"
  comment_likes :: "oid list"
  isDeleted :: bool
  isEdited :: bool
  comment_createdAt :: nat

text \<open>
  Modelled from the spec: \<open>markAsEdited\<close> of the Comment model, "edited state tracked via
  a flag".
\<close>

definition markAsEdited :: "comment \<Rightarrow> comment" where
  "markAsEdited c = c\<lparr>isEdited := True\<rparr>"

text \<open>
  Modelled from the spec: the change \<open>softDelete\<close> of the Comment model makes before it
  saves the comment, "soft-delete via \<open>isDeleted\<close> flag rather than physical removal".
\<close>

definition softDelete :: "comment \<Rightarrow> comment" where
  "softDelete c = c\<lparr>isDeleted := True\<rparr>"

section \<open>The document store\<close>

text \<open>
  Each collection is the list of its documents. The handlers read a document by its
  identifier, write a loaded document back, insert a new one or delete one.
\<close>

record store =
  Blogs :: "blog list"
  Comments :: "comment list"
  Users :: "user list"

definition findById :: "('d \<Rightarrow> oid) \<Rightarrow> 'd list \<Rightarrow> oid \<Rightarrow> 'd option" where
  "findById key coll i = find (\<lambda>d. key d = i) coll"

definition replace_doc :: "('d \<Rightarrow> oid) \<Rightarrow> 'd list \<Rightarrow> 'd \<Rightarrow> 'd list" where
  "replace_doc key coll d = map (\<lambda>e. if key e = key d then d else e) coll"

definition update_doc :: "('d \<Rightarrow> oid) \<Rightarrow> 'd list \<Rightarrow> oid \<Rightarrow> ('d \<Rightarrow> 'd) \<Rightarrow> 'd list" where
  "update_doc key coll i f = map (\<lambda>e. if key e = i then f e else e) coll"

definition delete_doc :: "('d \<Rightarrow> oid) \<Rightarrow> 'd list \<Rightarrow> oid \<Rightarrow> 'd list" where
  "delete_doc key coll i = filter (\<lambda>e. key e \<noteq> i) coll"

text \<open>
  \<open>blog.save()\<close> on a loaded blog: the hook runs with the value of
  \<open>isModified('content')\<close> and the document is written back.
\<close>

definition save_blog :: "store \<Rightarrow> bool \<Rightarrow> blog \<Rightarrow> store" where
  "save_blog st content_modified b =
     st\<lparr>Blogs := replace_doc blog_id (Blogs st) (pre_save content_modified b)\<rparr>"

definition save_comment :: "store \<Rightarrow> comment \<Rightarrow> store" where
  "save_comment st c = st\<lparr>Comments := replace_doc comment_id (Comments st) c\<rparr>"

text \<open>
  Inserting a document; the database refuses an identifier that is already in the
  collection.
\<close>

definition insert_doc :: "('d \<Rightarrow> oid) \<Rightarrow> 'd list \<Rightarrow> 'd \<Rightarrow> 'd list option" where
  "insert_doc key coll d = (if key d \<in> set (map key coll) then None else Some (coll @ [d]))"

definition save_user :: "store \<Rightarrow> user \<Rightarrow> store" where
  "save_user st u = st\<lparr>Users := replace_doc user_id (Users st) u\<rparr>"

section \<open>Responses\<close>

record pagination =
  currentPage :: int
  totalPages :: int
  totalItems :: nat
  hasNext :: bool
  hasPrev :: bool

text \<open>A top-level comment of a listing, with its populated replies.\<close>

record comment_view =
  view_comment :: comment
  view_replies :: "comment list"

datatype body =
    Message string
  | Errors "string list"
  | LikeResult string nat bool
  | FollowResult string bool
  | BlogResult blog "bool option"
  | BlogSaved string "blog option"
  | BlogList "blog list" pagination
  | CommentSaved string "comment option"
  | CommentList "comment_view list" pagination
  | UserCommentList "comment list" pagination
  | UserList "user list" pagination

type_synonym response = "nat \<times> body"

section \<open>Likes\<close>

text \<open>
  The array update shared by \<open>POST /api/blogs/:id/like\<close> and
  \<open>POST /api/comments/:id/like\<close>: splice the user out at \<open>likeIndex\<close> when it is there,
  push it otherwise.
\<close>

definition toggle :: "oid list \<Rightarrow> oid \<Rightarrow> oid list" where
  "toggle ls uid =
     (let likeIndex = indexOf ls uid
      in if likeIndex > -1 then splice_js ls likeIndex 1 else push ls uid)"

text \<open>\<open>POST /api/blogs/:id/like\<close>\<close>

definition like_blog :: "store \<Rightarrow> user \<Rightarrow> oid \<Rightarrow> store \<times> response" where
  "like_blog st req_user bid =
     (case findById blog_id (Blogs st) bid of
        None \<Rightarrow> (st, (404, Message ''Blog not found''))
      | Some blog \<Rightarrow>
          (let likeIndex = indexOf (likes blog) (user_id req_user);
               blog' = blog\<lparr>likes := toggle (likes blog) (user_id req_user)\<rparr>
           in (save_blog st False blog',
               (200, LikeResult (if likeIndex > -1 then ''Blog unliked'' else ''Blog liked'')
                       (length (likes blog')) (likeIndex = -1)))))"

text \<open>\<open>DELETE /api/blogs/:id/like\<close>\<close>

definition unlike_blog :: "store \<Rightarrow> user \<Rightarrow> oid \<Rightarrow> store \<times> response" where
  "unlike_blog st req_user bid =
     (case findById blog_id (Blogs st) bid of
        None \<Rightarrow> (st, (404, Message ''Blog not found''))
      | Some blog \<Rightarrow>
          (let likeIndex = indexOf (likes blog) (user_id req_user)
           in if likeIndex = -1 then (st, (400, Message ''Blog is not liked''))
              else (let blog' = blog\<lparr>likes := splice_js (likes blog) likeIndex 1\<rparr>
                    in (save_blog st False blog',
                        (200, LikeResult ''Blog unliked'' (length (likes blog')) False)))))"

text \<open>\<open>POST /api/comments/:id/like\<close>\<close>

definition like_comment :: "store \<Rightarrow> user \<Rightarrow> oid \<Rightarrow> store \<times> response" where
  "like_comment st req_user cid =
     (case findById comment_id (Comments st) cid of
        None \<Rightarrow> (st, (404, Message ''Comment not found''))
      | Some comment \<Rightarrow>
          (let likeIndex = indexOf (comment_likes comment) (user_id req_user);
               comment' = comment\<lparr>comment_likes := toggle (comment_likes comment) (user_id req_user)\<rparr>
           in (save_comment st comment',
               (200, LikeResult (if likeIndex > -1 then ''Comment unliked'' else ''Comment liked'')
                       (length (comment_likes comment')) (likeIndex = -1)))))"

section \<open>Listings\<close>

text \<open>
  \<open>parseInt(req.query.x) || d\<close>. The parameter is the integer that the query string
  writes, \<open>None\<close> when it is missing or \<open>parseInt\<close> gives \<open>NaN\<close>; the default
  replaces \<open>NaN\<close> and zero.
\<close>

definition or_default :: "int option \<Rightarrow> int \<Rightarrow> int" where
  "or_default p d =
     (case p of None \<Rightarrow> d | Some n \<Rightarrow> if to_double n = 0 then d else to_double n)"

text \<open>
  \<open>.skip(skip).limit(limit)\<close> on the sorted matches. The database refuses a negative
  \<open>skip\<close>, which the handler answers with status 500; it reads a negative \<open>limit\<close> as
  its absolute value.
\<close>

definition skip_limit :: "'d list \<Rightarrow> int \<Rightarrow> int \<Rightarrow> 'd list option" where
  "skip_limit matched skip limit =
     (if skip < 0 then None else Some (take (nat \<bar>limit\<bar>) (drop (nat skip) matched)))"

text \<open>The \<open>pagination\<close> object that every list handler builds from \<open>page\<close>, \<open>limit\<close> and \<open>total\<close>.\<close>

definition paginate :: "int \<Rightarrow> int \<Rightarrow> nat \<Rightarrow> pagination" where
  "paginate page limit total' =
     \<lparr>currentPage = page,
      totalPages = ceil_div (int total') limit,
      totalItems = total',
      hasNext = (times_js page limit < int total'),
      hasPrev = (page > 1)\<rparr>"

definition newest_first :: "('d \<Rightarrow> nat) \<Rightarrow> 'd list \<Rightarrow> 'd list" where
  "newest_first created ds = sort_key (\<lambda>d. - int (created d)) ds"

section \<open>Comment routes\<close>

text \<open>
  \<open>populate('replies')\<close> with \<open>match: { isDeleted: false }\<close>: the referenced comments that
  exist and match, in the order of the references. In the list responses the
  \<open>isLiked\<close> mark that a signed-in requester gets on each item and the display fields
  of populated authors are left out: they do not decide which documents are listed.
\<close>

definition populate_replies :: "comment list \<Rightarrow> comment \<Rightarrow> comment_view" where
  "populate_replies coll c =
     \<lparr>view_comment = c,
      view_replies =
        List.map_filter
          (\<lambda>i. case findById comment_id coll i of
                  None \<Rightarrow> None
                | Some r \<Rightarrow> if isDeleted r = False then Some r else None)
          (replies c)\<rparr>"

text \<open>\<open>GET /api/comments/blog/:blogId\<close>\<close>

definition get_comments_blog :: "store \<Rightarrow> oid \<Rightarrow> int option \<Rightarrow> int option \<Rightarrow> response" where
  "get_comments_blog st blogId q_page q_limit =
     (let page = or_default q_page 1;
          limit = or_default q_limit 20;
          skip = times_js (minus_js page 1) limit;
          matching = filter (\<lambda>c. comment_blog c = blogId \<and> parentComment c = None
                                   \<and> isDeleted c = False) (Comments st);
          total' = length matching
      in case skip_limit (newest_first comment_createdAt matching) skip limit of
           None \<Rightarrow> (500, Message ''Server error'')
         | Some found \<Rightarrow>
             (200, CommentList (map (populate_replies (Comments st)) found)
                     (paginate page limit total')))"

text \<open>\<open>GET /api/comments/user/:userId\<close>\<close>

definition get_comments_user :: "store \<Rightarrow> oid \<Rightarrow> int option \<Rightarrow> int option \<Rightarrow> response" where
  "get_comments_user st userId q_page q_limit =
     (let page = or_default q_page 1;
          limit = or_default q_limit 20;
          skip = times_js (minus_js page 1) limit;
          matching = filter (\<lambda>c. comment_author c = userId \<and> isDeleted c = False) (Comments st);
          total' = length matching
      in case skip_limit (newest_first comment_createdAt matching) skip limit of
           None \<Rightarrow> (500, Message ''Server error'')
         | Some found \<Rightarrow> (200, UserCommentList found (paginate page limit total')))"

text \<open>The comments that a listing of a blog's comments shows: each top-level comment and its replies.\<close>

definition shown_comments :: "comment_view list \<Rightarrow> comment list" where
  "shown_comments vs = concat (map (\<lambda>v. view_comment v # view_replies v) vs)"

text \<open>
  \<open>POST /api/comments\<close>. \<open>errors\<close> is the result of the request validators,
  \<open>new_id\<close> the identifier of the new document and \<open>now\<close> its creation time. The
  defaults of the new comment (no replies, no likes, neither deleted nor edited) are
  modelled from the spec, as the Comment model is.
\<close>

definition post_comment ::
  "store \<Rightarrow> user \<Rightarrow> string list \<Rightarrow> jsstring \<Rightarrow> oid \<Rightarrow> oid option \<Rightarrow> oid \<Rightarrow> nat \<Rightarrow> store \<times> response" where
  "post_comment st req_user errors content' blogId parentCommentId new_id now =
     (if errors \<noteq> [] then (st, (400, Errors errors))
      else case findById blog_id (Blogs st) blogId of
        None \<Rightarrow> (st, (404, Message ''Blog not found''))
      | Some blog \<Rightarrow>
          (if (case parentCommentId of
                 None \<Rightarrow> False
               | Some pid \<Rightarrow> findById comment_id (Comments st) pid = None)
           then (st, (404, Message ''Parent comment not found''))
           else
             (let comment = \<lparr>comment_id = new_id, comment_content = content',
                             comment_author = user_id req_user, comment_blog = blogId,
                             parentComment = parentCommentId, replies = [],
                             comment_likes = [], isDeleted = False, isEdited = False,
                             comment_createdAt = now\<rparr>
              in case insert_doc comment_id (Comments st) comment of
                   None \<Rightarrow> (st, (500, Message ''Server error''))
                 | Some saved \<Rightarrow>
                     (let with_reply =
                            (case parentCommentId of
                               None \<Rightarrow> saved
                             | Some pid \<Rightarrow>
                                 update_doc comment_id saved pid
                                   (\<lambda>p. p\<lparr>replies := push (replies p) new_id\<rparr>));
                          st' = st\<lparr>Comments := with_reply,
                                   Blogs := update_doc blog_id (Blogs st) blogId
                                              (\<lambda>b. b\<lparr>comments := push (comments b) new_id\<rparr>)\<rparr>
                      in (st', (201, CommentSaved ''Comment added successfully''
                                       (findById comment_id (Comments st') new_id)))))))"

text \<open>\<open>PUT /api/comments/:id\<close>\<close>

definition put_comment ::
  "store \<Rightarrow> user \<Rightarrow> string list \<Rightarrow> oid \<Rightarrow> jsstring \<Rightarrow> store \<times> response" where
  "put_comment st req_user errors cid content' =
     (if errors \<noteq> [] then (st, (400, Errors errors))
      else case findById comment_id (Comments st) cid of
        None \<Rightarrow> (st, (404, Message ''Comment not found''))
      | Some comment \<Rightarrow>
          (if comment_author comment \<noteq> user_id req_user
           then (st, (403, Message ''Not authorized to update this comment''))
           else
             (let st' = save_comment st (markAsEdited (comment\<lparr>comment_content := content'\<rparr>))
              in (st', (200, CommentSaved ''Comment updated successfully''
                               (findById comment_id (Comments st') (comment_id comment)))))))"

text \<open>\<open>DELETE /api/comments/:id\<close>\<close>

definition delete_comment :: "store \<Rightarrow> user \<Rightarrow> oid \<Rightarrow> store \<times> response" where
  "delete_comment st req_user cid =
     (case findById comment_id (Comments st) cid of
        None \<Rightarrow> (st, (404, Message ''Comment not found''))
      | Some comment \<Rightarrow>
          (if comment_author comment \<noteq> user_id req_user \<and> role req_user \<noteq> ''admin''
           then (st, (403, Message ''Not authorized to delete this comment''))
           else (save_comment st (softDelete comment),
                 (200, Message ''Comment deleted successfully''))))"

section \<open>User routes\<close>

text \<open>\<open>Array.prototype.includes\<close> on an array of a loaded document.\<close>

definition includes_js :: "'a list \<Rightarrow> 'a \<Rightarrow> bool" where
  "includes_js xs x = (x \<in> set xs)"

text \<open>
  \<open>POST /api/users/:id/follow\<close>. \<open>req_user\<close> is the document of the signed-in user; the
  two saves write two different documents.
\<close>

definition follow_user :: "store \<Rightarrow> user \<Rightarrow> oid \<Rightarrow> store \<times> response" where
  "follow_user st req_user target =
     (case findById user_id (Users st) target of
        None \<Rightarrow> (st, (404, Message ''User not found''))
      | Some userToFollow \<Rightarrow>
          (if user_id userToFollow = user_id req_user
           then (st, (400, Message ''You cannot follow yourself''))
           else
             (let isFollowing = includes_js (following req_user) (user_id userToFollow);
                  req_user' =
                    (if isFollowing
                     then req_user\<lparr>following :=
                            filter (\<lambda>i. i \<noteq> user_id userToFollow) (following req_user)\<rparr>
                     else req_user\<lparr>following :=
                            push (following req_user) (user_id userToFollow)\<rparr>);
                  userToFollow' =
                    (if isFollowing
                     then userToFollow\<lparr>followers :=
                            filter (\<lambda>i. i \<noteq> user_id req_user) (followers userToFollow)\<rparr>
                     else userToFollow\<lparr>followers :=
                            push (followers userToFollow) (user_id req_user)\<rparr>)
              in (save_user (save_user st req_user') userToFollow',
                  (200, FollowResult (if isFollowing then ''User unfollowed'' else ''User followed'')
                          (\<not> isFollowing))))))"

text \<open>
  \<open>GET /api/users\<close>. \<open>regex_i\<close> stands for the database's case-insensitive
  \<open>$regex\<close>: the matcher of a pattern, \<open>None\<close> for a pattern that the database
  refuses; \<open>by_username\<close> stands for its ordering of the matches by username.
\<close>

definition get_users ::
  "(jsstring \<Rightarrow> (jsstring \<Rightarrow> bool) option) \<Rightarrow> (user list \<Rightarrow> user list) \<Rightarrow> store \<Rightarrow>
   jsstring option \<Rightarrow> string option \<Rightarrow> int option \<Rightarrow> int option \<Rightarrow> response" where
  "get_users regex_i by_username st search sort_param q_page q_limit =
     (let page = or_default q_page 1;
          limit = or_default q_limit 20;
          skip = times_js (minus_js page 1) limit;
          named = (\<lambda>m x. case x of None \<Rightarrow> False | Some n \<Rightarrow> m n);
          condition =
            (case search of
               None \<Rightarrow> Some (\<lambda>u. True)
             | Some s \<Rightarrow>
                 if s = [] then Some (\<lambda>u. True)
                 else (case regex_i s of
                         None \<Rightarrow> None
                       | Some m \<Rightarrow>
                           Some (\<lambda>u. m (username u) \<or> named m (firstName u)
                                    \<or> named m (lastName u))));
          sort = (case sort_param of None \<Rightarrow> ''newest'' | Some x \<Rightarrow> x)
      in case condition of
           None \<Rightarrow> (500, Message ''Server error'')
         | Some matches \<Rightarrow>
             (let matching = filter matches (Users st);
                  total' = length matching;
                  sorted =
                    (if sort = ''newest'' then newest_first user_createdAt matching
                     else if sort = ''oldest'' then sort_key user_createdAt matching
                     else if sort = ''username'' then by_username matching
                     else newest_first user_createdAt matching)
              in case skip_limit sorted skip limit of
                   None \<Rightarrow> (500, Message ''Server error'')
                 | Some found \<Rightarrow> (200, UserList found (paginate page limit total'))))"

text \<open>
  \<open>populate\<close> of a reference array of users with the options \<open>skip\<close>, \<open>limit\<close> and
  \<open>sort: { createdAt: -1 }\<close>: the options go into the query for the referenced users,
  and the array of the loaded document becomes the result of that query, one page of
  users.
\<close>

definition populate_users :: "user list \<Rightarrow> oid list \<Rightarrow> int \<Rightarrow> int \<Rightarrow> user list option" where
  "populate_users coll ids skip limit =
     skip_limit (newest_first user_createdAt (filter (\<lambda>x. user_id x \<in> set ids) coll)) skip limit"

text \<open>
  \<open>GET /api/users/:id/followers\<close>: \<open>total\<close> is the length of the populated array.
\<close>

definition get_followers :: "store \<Rightarrow> oid \<Rightarrow> int option \<Rightarrow> int option \<Rightarrow> response" where
  "get_followers st uid q_page q_limit =
     (let page = or_default q_page 1;
          limit = or_default q_limit 20;
          skip = times_js (minus_js page 1) limit
      in case findById user_id (Users st) uid of
           None \<Rightarrow> (404, Message ''User not found'')
         | Some user \<Rightarrow>
             (case populate_users (Users st) (followers user) skip limit of
                None \<Rightarrow> (500, Message ''Server error'')
              | Some populated \<Rightarrow>
                  (let total' = length populated
                   in (200, UserList populated (paginate page limit total')))))"

text \<open>\<open>GET /api/users/:id/following\<close>, the same on the other array.\<close>

definition get_following :: "store \<Rightarrow> oid \<Rightarrow> int option \<Rightarrow> int option \<Rightarrow> response" where
  "get_following st uid q_page q_limit =
     (let page = or_default q_page 1;
          limit = or_default q_limit 20;
          skip = times_js (minus_js page 1) limit
      in case findById user_id (Users st) uid of
           None \<Rightarrow> (404, Message ''User not found'')
         | Some user \<Rightarrow>
             (case populate_users (Users st) (following user) skip limit of
                None \<Rightarrow> (500, Message ''Server error'')
              | Some populated \<Rightarrow>
                  (let total' = length populated
                   in (200, UserList populated (paginate page limit total')))))"

text \<open>
  The two arrays agree on every pair of stored users: \<open>b\<close> is in \<open>a.following\<close>
  exactly when \<open>a\<close> is in \<open>b.followers\<close>.
\<close>

definition mutual :: "store \<Rightarrow> bool" where
  "mutual st =
     (\<forall>a \<in> set (Users st). \<forall>b \<in> set (Users st).
        (user_id b \<in> set (following a)) = (user_id a \<in> set (followers b)))"

section \<open>Blog routes\<close>

text \<open>
  The query of \<open>GET /api/blogs\<close>. An absent parameter is \<open>None\<close>; an empty string is
  falsy and adds no condition.
\<close>

record blog_query =
  q_category :: "string option"
  q_tag :: "jsstring option"
  q_search :: "jsstring option"
  q_author :: "oid option"
  q_sort :: "string option"

text \<open>
  The filter object. \<open>text_search\<close> stands for the text index of the database,
  \<open>$text: { $search: search }\<close>.
\<close>

definition blog_filter :: "(jsstring \<Rightarrow> blog \<Rightarrow> bool) \<Rightarrow> blog_query \<Rightarrow> blog \<Rightarrow> bool" where
  "blog_filter text_search q b =
     (status b = ''published'' \<and> isPublic b = True \<and>
      (case q_category q of None \<Rightarrow> True | Some c \<Rightarrow> c = [] \<or> category b = c) \<and>
      (case q_tag q of None \<Rightarrow> True | Some t \<Rightarrow> t = [] \<or> t \<in> set (tags b)) \<and>
      (case q_author q of None \<Rightarrow> True | Some a \<Rightarrow> author b = a) \<and>
      (case q_search q of None \<Rightarrow> True | Some s \<Rightarrow> s = [] \<or> text_search s b))"

text \<open>
  The sort object. \<open>likeCount\<close> is a virtual and no stored field, so sorting on it
  leaves the order of the matches as it is.
\<close>

definition blog_sort :: "string option \<Rightarrow> blog list \<Rightarrow> blog list" where
  "blog_sort sort_param bs =
     (let sort = (case sort_param of None \<Rightarrow> ''newest'' | Some x \<Rightarrow> x)
      in if sort = ''newest'' then newest_first createdAt bs
         else if sort = ''oldest'' then sort_key createdAt bs
         else if sort = ''popular'' then sort_key (\<lambda>b. - int (views b)) bs
         else if sort = ''likes'' then bs
         else newest_first createdAt bs)"

text \<open>\<open>GET /api/blogs\<close>\<close>

definition get_blogs ::
  "(jsstring \<Rightarrow> blog \<Rightarrow> bool) \<Rightarrow> store \<Rightarrow> blog_query \<Rightarrow> int option \<Rightarrow> int option \<Rightarrow> response" where
  "get_blogs text_search st q q_page q_limit =
     (let page = or_default q_page 1;
          limit = or_default q_limit 10;
          skip = times_js (minus_js page 1) limit;
          matching = filter (blog_filter text_search q) (Blogs st);
          total' = length matching
      in case skip_limit (blog_sort (q_sort q) matching) skip limit of
           None \<Rightarrow> (500, Message ''Server error'')
         | Some found \<Rightarrow> (200, BlogList found (paginate page limit total')))"

text \<open>
  \<open>GET /api/blogs/:id\<close>. The author is populated before the visibility check, which
  reads \<open>blog.author._id\<close>: where the author's account does not exist, that read throws
  and the handler answers with status 500.
\<close>

definition get_blog :: "store \<Rightarrow> user option \<Rightarrow> oid \<Rightarrow> store \<times> response" where
  "get_blog st req_user bid =
     (case findById blog_id (Blogs st) bid of
        None \<Rightarrow> (st, (404, Message ''Blog not found''))
      | Some blog \<Rightarrow>
          (let populated_author = findById user_id (Users st) (author blog);
               blog' = blog\<lparr>views := views blog + 1\<rparr>;
               shown = (save_blog st False blog',
                        (200, BlogResult blog'
                                (case req_user of
                                   None \<Rightarrow> None
                                 | Some u \<Rightarrow> Some (includes_js (likes blog) (user_id u)))))
           in if status blog \<noteq> ''published'' \<or> \<not> isPublic blog
              then (case req_user of
                      None \<Rightarrow> (st, (404, Message ''Blog not found''))
                    | Some u \<Rightarrow>
                        (case populated_author of
                           None \<Rightarrow> (st, (500, Message ''Server error''))
                         | Some a \<Rightarrow>
                             if user_id u \<noteq> user_id a \<and> role u \<noteq> ''admin''
                             then (st, (404, Message ''Blog not found''))
                             else shown))
              else shown))"

text \<open>The fields of a request body of the blog routes; an undefined field is \<open>None\<close>.\<close>

record blog_body =
  b_title :: "jsstring option"
  b_content :: "jsstring option"
  b_excerpt :: "jsstring option"
  b_tags :: "jsstring list option"
  b_category :: "string option"
  b_featuredImage :: "jsstring option"
  b_status :: "string option"
  b_isPublic :: "bool option"
  b_seo :: "seo option"

text \<open>
  \<open>new Blog({...})\<close> in \<open>POST /api/blogs\<close>, with the defaults of the handler and of the
  schema. An undefined \<open>title\<close>, \<open>content\<close> or \<open>category\<close> is the empty string here:
  both fail the validation of the document.
\<close>

definition new_blog :: "user \<Rightarrow> blog_body \<Rightarrow> oid \<Rightarrow> nat \<Rightarrow> blog" where
  "new_blog req_user body' new_id now =
     \<lparr>blog_id = new_id,
      title = (case b_title body' of None \<Rightarrow> [] | Some t \<Rightarrow> trim t),
      content = (case b_content body' of None \<Rightarrow> [] | Some c \<Rightarrow> c),
      excerpt = (case b_excerpt body' of None \<Rightarrow> [] | Some e \<Rightarrow> e),
      author = user_id req_user,
      tags = (case b_tags body' of None \<Rightarrow> [] | Some ts \<Rightarrow> map trim ts),
      category = (case b_category body' of None \<Rightarrow> [] | Some c \<Rightarrow> c),
      featuredImage = (case b_featuredImage body' of None \<Rightarrow> [] | Some f \<Rightarrow> f),
      status = (case b_status body' of None \<Rightarrow> ''draft''
                | Some x \<Rightarrow> if x = [] then ''draft'' else x),
      isPublic = (case b_isPublic body' of None \<Rightarrow> True | Some p \<Rightarrow> p),
      likes = [],
      views = 0,
      readTime = 0,
      blog_seo = b_seo body',
      comments = [],
      createdAt = now\<rparr>"

text \<open>\<open>POST /api/blogs\<close>\<close>

definition post_blog ::
  "store \<Rightarrow> user \<Rightarrow> string list \<Rightarrow> blog_body \<Rightarrow> oid \<Rightarrow> nat \<Rightarrow> store \<times> response" where
  "post_blog st req_user errors body' new_id now =
     (if errors \<noteq> [] then (st, (400, Errors errors))
      else
        (let blog = new_blog req_user body' new_id now
         in if \<not> validate_new blog then (st, (500, Message ''Server error''))
            else case insert_doc blog_id (Blogs st) (pre_save True blog) of
                   None \<Rightarrow> (st, (500, Message ''Server error''))
                 | Some saved \<Rightarrow>
                     (st\<lparr>Blogs := saved\<rparr>,
                      (201, BlogSaved ''Blog created successfully''
                              (findById blog_id saved new_id)))))"

text \<open>The loop over \<open>updateFields\<close> in \<open>PUT /api/blogs/:id\<close>.\<close>

definition apply_updates :: "blog \<Rightarrow> blog_body \<Rightarrow> blog" where
  "apply_updates blog body' =
     blog\<lparr>title := (case b_title body' of None \<Rightarrow> title blog | Some t \<Rightarrow> trim t),
          content := (case b_content body' of None \<Rightarrow> content blog | Some c \<Rightarrow> c),
          excerpt := (case b_excerpt body' of None \<Rightarrow> excerpt blog | Some e \<Rightarrow> e),
          tags := (case b_tags body' of None \<Rightarrow> tags blog | Some ts \<Rightarrow> map trim ts),
          category := (case b_category body' of None \<Rightarrow> category blog | Some c \<Rightarrow> c),
          featuredImage :=
            (case b_featuredImage body' of None \<Rightarrow> featuredImage blog | Some f \<Rightarrow> f),
          status := (case b_status body' of None \<Rightarrow> status blog | Some x \<Rightarrow> x),
          isPublic := (case b_isPublic body' of None \<Rightarrow> isPublic blog | Some p \<Rightarrow> p),
          blog_seo := (case b_seo body' of None \<Rightarrow> blog_seo blog | Some x \<Rightarrow> Some x)\<rparr>"

text \<open>
  \<open>PUT /api/blogs/:id\<close>. At the save, \<open>isModified('content')\<close> holds when the assigned
  content differs from the loaded one.
\<close>

definition put_blog ::
  "store \<Rightarrow> user \<Rightarrow> string list \<Rightarrow> oid \<Rightarrow> blog_body \<Rightarrow> store \<times> response" where
  "put_blog st req_user errors bid body' =
     (if errors \<noteq> [] then (st, (400, Errors errors))
      else case findById blog_id (Blogs st) bid of
        None \<Rightarrow> (st, (404, Message ''Blog not found''))
      | Some blog \<Rightarrow>
          (if author blog \<noteq> user_id req_user \<and> role req_user \<noteq> ''admin''
           then (st, (403, Message ''Not authorized to update this blog''))
           else
             (let blog' = apply_updates blog body'
              in if \<not> validate_modified blog blog' then (st, (500, Message ''Server error''))
                 else
                   (let st' = save_blog st (content blog' \<noteq> content blog) blog'
                    in (st', (200, BlogSaved ''Blog updated successfully''
                                     (findById blog_id (Blogs st') (blog_id blog))))))))"

text \<open>\<open>DELETE /api/blogs/:id\<close>\<close>

definition delete_blog :: "store \<Rightarrow> user \<Rightarrow> oid \<Rightarrow> store \<times> response" where
  "delete_blog st req_user bid =
     (case findById blog_id (Blogs st) bid of
        None \<Rightarrow> (st, (404, Message ''Blog not found''))
      | Some blog \<Rightarrow>
          (if author blog \<noteq> user_id req_user \<and> role req_user \<noteq> ''admin''
           then (st, (403, Message ''Not authorized to delete this blog''))
           else (st\<lparr>Blogs := delete_doc blog_id (Blogs st) bid\<rparr>,
                 (200, Message ''Blog deleted successfully''))))"

text \<open>
  \<open>GET /api/blogs/user/:userId\<close>: a signed-in user who asks for the own blogs gets them
  whatever their status.
\<close>

definition get_blogs_user ::
  "store \<Rightarrow> user option \<Rightarrow> oid \<Rightarrow> int option \<Rightarrow> int option \<Rightarrow> response" where
  "get_blogs_user st req_user userId q_page q_limit =
     (let page = or_default q_page 1;
          limit = or_default q_limit 10;
          skip = times_js (minus_js page 1) limit;
          own = (case req_user of None \<Rightarrow> False | Some u \<Rightarrow> user_id u = userId);
          matching = filter (\<lambda>b. author b = userId \<and>
                                   (own \<or> (status b = ''published'' \<and> isPublic b = True)))
                       (Blogs st);
          total' = length matching
      in case skip_limit (newest_first createdAt matching) skip limit of
           None \<Rightarrow> (500, Message ''Server error'')
         | Some found \<Rightarrow> (200, BlogList found (paginate page limit total')))"

section \<open>A small store\<close>

text \<open>
  Three accounts, a published blog with two likes, a draft, a comment with a deleted
  reply, and a comment on the draft; a query without conditions, the body of a new blog
  and a body that changes a title. The examples after the theorems run the handlers on this store.
\<close>

definition alice :: user where
  "alice = \<lparr>user_id = 1, username = js ''alice'', firstName = Some (js ''Alice''),
            lastName = None, role = ''user'', followers = [2],
            following = [], user_createdAt = 1\<rparr>"

definition bob :: user where
  "bob = \<lparr>user_id = 2, username = js ''bob'', firstName = None, lastName = None,
          role = ''user'', followers = [],
          following = [1], user_createdAt = 2\<rparr>"

definition carol :: user where
  "carol = \<lparr>user_id = 3, username = js ''carol'', firstName = None, lastName = None,
           role = ''admin'', followers = [],
           following = [], user_createdAt = 3\<rparr>"

definition post10 :: blog where
  "post10 = \<lparr>blog_id = 10, title = js ''Hello'', content = js ''<p>Hello world</p>'',
             excerpt = js ''Hello world'', author = 1, tags = [js ''intro''],
             category = ''Technology'', featuredImage = [], status = ''published'',
             isPublic = True, likes = [1, 2], views = 5, readTime = 1, blog_seo = None,
             comments = [20, 21], createdAt = 100\<rparr>"

definition draft11 :: blog where
  "draft11 = \<lparr>blog_id = 11, title = js ''Notes'', content = js ''to do'',
              excerpt = js ''to do'', author = 1, tags = [],
              category = ''Other'', featuredImage = [], status = ''draft'',
              isPublic = True, likes = [], views = 0, readTime = 1, blog_seo = None,
              comments = [22], createdAt = 200\<rparr>"

definition comment20 :: comment where
  "comment20 = \<lparr>comment_id = 20, comment_content = js ''Nice'', comment_author = 2,
                comment_blog = 10, parentComment = None, replies = [21],
                comment_likes = [2, 1], isDeleted = False, isEdited = False,
                comment_createdAt = 110\<rparr>"

definition comment21 :: comment where
  "comment21 = \<lparr>comment_id = 21, comment_content = js ''Thanks'', comment_author = 1,
                comment_blog = 10, parentComment = Some 20, replies = [],
                comment_likes = [], isDeleted = True, isEdited = False,
                comment_createdAt = 120\<rparr>"

definition comment22 :: comment where
  "comment22 = \<lparr>comment_id = 22, comment_content = js ''Later'', comment_author = 1,
                comment_blog = 11, parentComment = None, replies = [],
                comment_likes = [], isDeleted = False, isEdited = False,
                comment_createdAt = 210\<rparr>"

definition store0 :: store where
  "store0 = \<lparr>Blogs = [post10, draft11], Comments = [comment20, comment21, comment22],
             Users = [alice, bob, carol]\<rparr>"

text \<open>A second store, in which bob and carol follow alice and bob follows carol too.\<close>

definition store1 :: store where
  "store1 = store0\<lparr>Users := [alice\<lparr>followers := [2, 3]\<rparr>, bob\<lparr>following := [1, 3]\<rparr>,
                              carol\<lparr>following := [1], followers := [2]\<rparr>]\<rparr>"

text \<open>
  A content of \<open>n\<close> one-letter words, each after a space, with a space at the end.
\<close>

definition padded :: "nat \<Rightarrow> jsstring" where
  "padded n = concat (replicate n (js '' w'')) @ js '' ''"

definition no_filter :: blog_query where
  "no_filter = \<lparr>q_category = None, q_tag = None, q_search = None, q_author = None,
                q_sort = None\<rparr>"

definition first_post :: blog_body where
  "first_post = \<lparr>b_title = Some (js '' New ''), b_content = Some (js ''<h1>Title</h1> one two''),
                 b_excerpt = None, b_tags = None, b_category = Some ''Travel'',
                 b_featuredImage = None, b_status = None, b_isPublic = None, b_seo = None\<rparr>"

definition retitle :: blog_body where
  "retitle = \<lparr>b_title = Some (js ''Hello again''), b_content = None, b_excerpt = None,
              b_tags = None, b_category = None, b_featuredImage = None, b_status = None,
              b_isPublic = None, b_seo = None\<rparr>"

section \<open>Facts about the array operations and the store\<close>

lemma indexOf_absent: "indexOf xs x = -1 \<longleftrightarrow> x \<notin> set xs"
  and indexOf_lower: "-1 \<le> indexOf xs x"
  by (induction xs) (auto simp: Let_def)

lemma indexOf_member: "x \<in> set xs \<Longrightarrow> 0 \<le> indexOf xs x \<and> indexOf xs x < int (length xs)"
  by (induction xs) (auto simp: Let_def indexOf_absent)

lemma splice_indexOf: "x \<in> set xs \<Longrightarrow> splice_js xs (indexOf xs x) 1 = remove1 x xs"
proof (induction xs)
  case Nil
  then show ?case by simp
next
  case (Cons y ys)
  show ?case
  proof (cases "y = x")
    case True
    then show ?thesis by (simp add: splice_js_def)
  next
    case False
    with Cons.prems have m: "x \<in> set ys" by simp
    from indexOf_member [OF m]
    have b: "0 \<le> indexOf ys x" "indexOf ys x < int (length ys)" by simp_all
    have "splice_js ys (indexOf ys x) 1 = remove1 x ys" using Cons.IH m by simp
    with b False m show ?thesis
      by (simp add: splice_js_def Let_def indexOf_absent nat_add_distrib min_def)
  qed
qed

lemma toggle_eq: "toggle ls u = (if u \<in> set ls then remove1 u ls else ls @ [u])"
  using indexOf_member [of u ls] indexOf_absent [of ls u] splice_indexOf [of u ls]
  by (auto simp: toggle_def Let_def push_def)

lemma to_double_safe: "\<bar>x\<bar> < 2 ^ 53 \<Longrightarrow> to_double x = x"
  by (simp add: to_double_def Let_def)

lemmas number_defs = or_default_def minus_js_def times_js_def to_double_safe

lemma ceil_div_ceiling: "ceil_div a b = \<lceil>real_of_int a / real_of_int b\<rceil>"
  by (simp add: ceil_div_def ceiling_divide_eq_div)

lemma findById_Some: "findById key coll i = Some d \<Longrightarrow> d \<in> set coll \<and> key d = i"
  unfolding findById_def by (induction coll) (simp_all split: if_splits)

lemma findById_None: "findById key coll i = None \<longleftrightarrow> i \<notin> key ` set coll"
  unfolding findById_def by (induction coll) auto

lemma findById_update_same:
  assumes "\<And>e. key (f e) = key e"
  shows "findById key (update_doc key coll i f) i = map_option f (findById key coll i)"
  unfolding findById_def update_doc_def using assms
  by (induction coll) simp_all

lemma findById_update_other:
  assumes "\<And>e. key (f e) = key e" and "i \<noteq> j"
  shows "findById key (update_doc key coll j f) i = findById key coll i"
  unfolding findById_def update_doc_def using assms
  by (induction coll) simp_all

lemma findById_replace_same:
  "findById key (replace_doc key coll d') (key d') =
     map_option (\<lambda>_. d') (findById key coll (key d'))"
  unfolding findById_def replace_doc_def
  by (induction coll) simp_all

lemma findById_replace_other:
  "i \<noteq> key d' \<Longrightarrow> findById key (replace_doc key coll d') i = findById key coll i"
  unfolding findById_def replace_doc_def
  by (induction coll) simp_all

lemma set_replace_doc: "set (replace_doc key coll d) \<subseteq> insert d (set coll)"
  unfolding replace_doc_def by (induction coll) auto

section \<open>The like toggles on the store\<close>

lemma like_blog_found:
  assumes "findById blog_id (Blogs st) bid = Some b"
  shows "fst (like_blog st u bid) =
           st\<lparr>Blogs := replace_doc blog_id (Blogs st) (b\<lparr>likes := toggle (likes b) (user_id u)\<rparr>)\<rparr>"
    and "findById blog_id (Blogs (fst (like_blog st u bid))) bid =
           Some (b\<lparr>likes := toggle (likes b) (user_id u)\<rparr>)"
proof -
  have k: "blog_id b = bid" using findById_Some [OF assms] by simp
  show 1: "fst (like_blog st u bid) =
           st\<lparr>Blogs := replace_doc blog_id (Blogs st) (b\<lparr>likes := toggle (likes b) (user_id u)\<rparr>)\<rparr>"
    using assms by (simp add: like_blog_def Let_def save_blog_def pre_save_def)
  have "findById blog_id (replace_doc blog_id (Blogs st) (b\<lparr>likes := toggle (likes b) (user_id u)\<rparr>))
          (blog_id (b\<lparr>likes := toggle (likes b) (user_id u)\<rparr>)) = Some (b\<lparr>likes := toggle (likes b) (user_id u)\<rparr>)"
    unfolding findById_replace_same using assms k by simp
  then show "findById blog_id (Blogs (fst (like_blog st u bid))) bid =
           Some (b\<lparr>likes := toggle (likes b) (user_id u)\<rparr>)"
    using k by (simp add: 1)
qed

lemma like_comment_found:
  assumes "findById comment_id (Comments st) cid = Some c"
  shows "fst (like_comment st u cid) =
           st\<lparr>Comments := replace_doc comment_id (Comments st)
                 (c\<lparr>comment_likes := toggle (comment_likes c) (user_id u)\<rparr>)\<rparr>"
    and "findById comment_id (Comments (fst (like_comment st u cid))) cid =
           Some (c\<lparr>comment_likes := toggle (comment_likes c) (user_id u)\<rparr>)"
proof -
  have k: "comment_id c = cid" using findById_Some [OF assms] by simp
  show 1: "fst (like_comment st u cid) =
           st\<lparr>Comments := replace_doc comment_id (Comments st)
                 (c\<lparr>comment_likes := toggle (comment_likes c) (user_id u)\<rparr>)\<rparr>"
    using assms by (simp add: like_comment_def Let_def save_comment_def)
  have "findById comment_id (replace_doc comment_id (Comments st) (c\<lparr>comment_likes := toggle (comment_likes c) (user_id u)\<rparr>))
          (comment_id (c\<lparr>comment_likes := toggle (comment_likes c) (user_id u)\<rparr>)) = Some (c\<lparr>comment_likes := toggle (comment_likes c) (user_id u)\<rparr>)"
    unfolding findById_replace_same using assms k by simp
  then show "findById comment_id (Comments (fst (like_comment st u cid))) cid =
           Some (c\<lparr>comment_likes := toggle (comment_likes c) (user_id u)\<rparr>)"
    using k by (simp add: 1)
qed

lemma like_blog_missing: "findById blog_id (Blogs st) bid = None \<Longrightarrow> fst (like_blog st u bid) = st"
  by (simp add: like_blog_def)

lemma like_comment_missing:
  "findById comment_id (Comments st) cid = None \<Longrightarrow> fst (like_comment st u cid) = st"
  by (simp add: like_comment_def)

lemma toggle_twice_absent: "u \<notin> set ls \<Longrightarrow> toggle (toggle ls u) u = ls"
  by (simp add: toggle_eq remove1_append)

lemma toggle_twice_present:
  assumes "u \<in> set ls" and "count_list ls u \<le> 1"
  shows "toggle (toggle ls u) u = remove1 u ls @ [u]"
proof -
  have "count (mset (remove1 u ls)) u = count (mset ls) u - 1"
    using assms(1) by simp
  also have "\<dots> = 0" using assms(2) by (simp add: count_mset)
  finally have "u \<notin> set (remove1 u ls)"
    by (metis count_eq_zero_iff set_mset_mset)
  with assms(1) show ?thesis by (simp add: toggle_eq)
qed

lemma toggle_twice_mset:
  assumes "count_list ls u \<le> 1"
  shows "mset (toggle (toggle ls u) u) = mset ls"
proof (cases "u \<in> set ls")
  case True
  with assms show ?thesis by (simp add: toggle_twice_present)
next
  case False
  then show ?thesis by (simp add: toggle_twice_absent)
qed

section \<open>Likes hold each user once\<close>

text \<open>
  C5: the like toggles keep a like array free of duplicates. The toggle removes the
  user's entry when the user is in the array and appends the user otherwise, so a
  duplicate-free array stays duplicate-free; after \<open>POST /api/blogs/:id/like\<close> every
  blog of the store, and after \<open>POST /api/comments/:id/like\<close> every comment of the
  store, has a like array without duplicates when that held before the call.
\<close>

theorem like_toggle_keeps_likes_distinct:
  "(distinct ls \<longrightarrow> distinct (toggle ls uid)) \<and>
   ((\<forall>b \<in> set (Blogs st). distinct (likes b)) \<longrightarrow>
      (\<forall>b \<in> set (Blogs (fst (like_blog st req_user bid))). distinct (likes b))) \<and>
   ((\<forall>c \<in> set (Comments st). distinct (comment_likes c)) \<longrightarrow>
      (\<forall>c \<in> set (Comments (fst (like_comment st req_user cid))). distinct (comment_likes c)))"
proof (intro conjI impI)
  assume "distinct ls"
  then show "distinct (toggle ls uid)" by (simp add: toggle_eq)
next
  assume inv: "\<forall>b \<in> set (Blogs st). distinct (likes b)"
  show "\<forall>b \<in> set (Blogs (fst (like_blog st req_user bid))). distinct (likes b)"
  proof (cases "findById blog_id (Blogs st) bid")
    case None
    with inv show ?thesis by (simp add: like_blog_missing)
  next
    case (Some b)
    then have "distinct (likes b)" using inv findById_Some [OF Some] by simp
    then have "distinct (likes (b\<lparr>likes := toggle (likes b) (user_id req_user)\<rparr>))"
      by (simp add: toggle_eq)
    with inv set_replace_doc [of blog_id "Blogs st" "b\<lparr>likes := toggle (likes b) (user_id req_user)\<rparr>"]
    show ?thesis unfolding like_blog_found(1) [OF Some] by auto
  qed
next
  assume inv: "\<forall>c \<in> set (Comments st). distinct (comment_likes c)"
  show "\<forall>c \<in> set (Comments (fst (like_comment st req_user cid))). distinct (comment_likes c)"
  proof (cases "findById comment_id (Comments st) cid")
    case None
    with inv show ?thesis by (simp add: like_comment_missing)
  next
    case (Some c)
    then have "distinct (comment_likes c)" using inv findById_Some [OF Some] by simp
    then have "distinct (comment_likes (c\<lparr>comment_likes := toggle (comment_likes c) (user_id req_user)\<rparr>))"
      by (simp add: toggle_eq)
    with inv set_replace_doc [of comment_id "Comments st" "c\<lparr>comment_likes := toggle (comment_likes c) (user_id req_user)\<rparr>"]
    show ?thesis unfolding like_comment_found(1) [OF Some] by auto
  qed
qed

section \<open>Evaluating the handlers on the small store\<close>

lemmas store0_defs = store0_def post10_def draft11_def comment20_def comment21_def comment22_def
  alice_def bob_def carol_def
lemmas like_defs = like_blog_def like_comment_def unlike_blog_def findById_def toggle_def
      splice_js_def push_def save_blog_def save_comment_def replace_doc_def pre_save_def Let_def

text \<open>
  The toggles on the small store: alice likes the blog and the comment already, and
  every like array is free of duplicates before and after her calls.
\<close>

theorem like_toggle_keeps_likes_distinct_witness:
  "distinct [1, 2 :: nat] \<and> distinct (toggle [1, 2] 1) \<and>
   list_all (\<lambda>b. distinct (likes b)) (Blogs store0) \<and>
   list_all (\<lambda>b. distinct (likes b)) (Blogs (fst (like_blog store0 alice 10))) \<and>
   list_all (\<lambda>c. distinct (comment_likes c)) (Comments store0) \<and>
   list_all (\<lambda>c. distinct (comment_likes c)) (Comments (fst (like_comment store0 alice 20)))"
proof -
  have h1: "distinct [1, 2 :: nat]" by simp
  have h2: "\<forall>b \<in> set (Blogs store0). distinct (likes b)"
    by (simp add: store0_def post10_def draft11_def)
  have h3: "\<forall>c \<in> set (Comments store0). distinct (comment_likes c)"
    by (simp add: store0_def comment20_def comment21_def comment22_def)
  from like_toggle_keeps_likes_distinct [of "[1, 2]" 1 store0 alice 10 20] h1 h2 h3
  show ?thesis unfolding list_all_iff by blast
qed

section \<open>Toggling a like twice\<close>

text \<open>
  Against C1 as stated: alice is the first of the two users who like the blog. Her
  first call splices her entry out, her second call pushes it at the end, and the like
  array \<open>[1, 2]\<close> has become \<open>[2, 1]\<close>.
\<close>

theorem like_twice_reorders_counterexample:
  "map_option likes (findById blog_id (Blogs store0) 10) = Some [1, 2] \<and>
   map_option likes
     (findById blog_id (Blogs (fst (like_blog (fst (like_blog store0 alice 10)) alice 10))) 10)
     = Some [2, 1]"
  by (simp add: like_defs store0_defs)

text \<open>
  C1, amended: two like toggles in succession by the same user, on a blog (or a comment)
  whose like array holds this user at most once, leave the array with the same entries
  and the same \<open>likeCount\<close>. The array itself is as before when the user had not
  liked (like, then unlike); a user who had liked is moved to the end of the array.
\<close>

theorem like_twice_restores_count:
  "(findById blog_id (Blogs st) bid = Some b \<and> count_list (likes b) (user_id u) \<le> 1 \<longrightarrow>
      (\<exists>b'. findById blog_id (Blogs (fst (like_blog (fst (like_blog st u bid)) u bid))) bid = Some b'
         \<and> likeCount b' = likeCount b \<and> mset (likes b') = mset (likes b)
         \<and> (user_id u \<notin> set (likes b) \<longrightarrow> likes b' = likes b)
         \<and> (user_id u \<in> set (likes b) \<longrightarrow> likes b' = remove1 (user_id u) (likes b) @ [user_id u]))) \<and>
   (findById comment_id (Comments st) cid = Some c \<and> count_list (comment_likes c) (user_id u) \<le> 1 \<longrightarrow>
      (\<exists>c'. findById comment_id
                (Comments (fst (like_comment (fst (like_comment st u cid)) u cid))) cid = Some c'
         \<and> length (comment_likes c') = length (comment_likes c)
         \<and> mset (comment_likes c') = mset (comment_likes c)
         \<and> (user_id u \<notin> set (comment_likes c) \<longrightarrow> comment_likes c' = comment_likes c)
         \<and> (user_id u \<in> set (comment_likes c) \<longrightarrow>
               comment_likes c' = remove1 (user_id u) (comment_likes c) @ [user_id u])))"
proof (intro conjI impI)
  assume a: "findById blog_id (Blogs st) bid = Some b \<and> count_list (likes b) (user_id u) \<le> 1"
  let ?b1 = "b\<lparr>likes := toggle (likes b) (user_id u)\<rparr>"
  let ?b2 = "?b1\<lparr>likes := toggle (likes ?b1) (user_id u)\<rparr>"
  have f1: "findById blog_id (Blogs (fst (like_blog st u bid))) bid = Some ?b1"
    using a by (simp add: like_blog_found(2))
  have f2: "findById blog_id (Blogs (fst (like_blog (fst (like_blog st u bid)) u bid))) bid = Some ?b2"
    by (rule like_blog_found(2) [OF f1])
  have l: "likes ?b2 = toggle (toggle (likes b) (user_id u)) (user_id u)" by simp
  have m: "mset (likes ?b2) = mset (likes b)" using a by (simp add: toggle_twice_mset)
  then have "size (mset (likes ?b2)) = size (mset (likes b))" by simp
  then have n: "likeCount ?b2 = likeCount b" by (simp add: likeCount_def)
  have p: "user_id u \<notin> set (likes b) \<longrightarrow> likes ?b2 = likes b"
    by (simp add: toggle_twice_absent)
  have q: "user_id u \<in> set (likes b) \<longrightarrow> likes ?b2 = remove1 (user_id u) (likes b) @ [user_id u]"
    using a by (simp add: toggle_twice_present)
  from f2 m n p q
  show "\<exists>b'. findById blog_id (Blogs (fst (like_blog (fst (like_blog st u bid)) u bid))) bid = Some b'
         \<and> likeCount b' = likeCount b \<and> mset (likes b') = mset (likes b)
         \<and> (user_id u \<notin> set (likes b) \<longrightarrow> likes b' = likes b)
         \<and> (user_id u \<in> set (likes b) \<longrightarrow> likes b' = remove1 (user_id u) (likes b) @ [user_id u])"
    by blast
next
  assume a: "findById comment_id (Comments st) cid = Some c \<and> count_list (comment_likes c) (user_id u) \<le> 1"
  let ?c1 = "c\<lparr>comment_likes := toggle (comment_likes c) (user_id u)\<rparr>"
  let ?c2 = "?c1\<lparr>comment_likes := toggle (comment_likes ?c1) (user_id u)\<rparr>"
  have f1: "findById comment_id (Comments (fst (like_comment st u cid))) cid = Some ?c1"
    using a by (simp add: like_comment_found(2))
  have f2: "findById comment_id (Comments (fst (like_comment (fst (like_comment st u cid)) u cid))) cid = Some ?c2"
    by (rule like_comment_found(2) [OF f1])
  have m: "mset (comment_likes ?c2) = mset (comment_likes c)" using a by (simp add: toggle_twice_mset)
  then have "size (mset (comment_likes ?c2)) = size (mset (comment_likes c))" by simp
  then have n: "length (comment_likes ?c2) = length (comment_likes c)" by simp
  have p: "user_id u \<notin> set (comment_likes c) \<longrightarrow> comment_likes ?c2 = comment_likes c"
    by (simp add: toggle_twice_absent)
  have q: "user_id u \<in> set (comment_likes c) \<longrightarrow>
             comment_likes ?c2 = remove1 (user_id u) (comment_likes c) @ [user_id u]"
    using a by (simp add: toggle_twice_present)
  from f2 m n p q
  show "\<exists>c'. findById comment_id
                (Comments (fst (like_comment (fst (like_comment st u cid)) u cid))) cid = Some c'
         \<and> length (comment_likes c') = length (comment_likes c)
         \<and> mset (comment_likes c') = mset (comment_likes c)
         \<and> (user_id u \<notin> set (comment_likes c) \<longrightarrow> comment_likes c' = comment_likes c)
         \<and> (user_id u \<in> set (comment_likes c) \<longrightarrow>
               comment_likes c' = remove1 (user_id u) (comment_likes c) @ [user_id u])"
    by blast
qed

theorem like_twice_restores_count_witness:
  "findById blog_id (Blogs store0) 10 = Some post10 \<and> count_list (likes post10) (user_id carol) \<le> 1 \<and>
   (\<exists>b'. findById blog_id (Blogs (fst (like_blog (fst (like_blog store0 carol 10)) carol 10))) 10 = Some b'
      \<and> likeCount b' = likeCount post10 \<and> likes b' = likes post10) \<and>
   findById comment_id (Comments store0) 20 = Some comment20 \<and>
   count_list (comment_likes comment20) (user_id carol) \<le> 1 \<and>
   (\<exists>c'. findById comment_id
             (Comments (fst (like_comment (fst (like_comment store0 carol 20)) carol 20))) 20 = Some c'
      \<and> length (comment_likes c') = length (comment_likes comment20)
      \<and> comment_likes c' = comment_likes comment20)"
proof -
  have h1: "findById blog_id (Blogs store0) 10 = Some post10"
    by (simp add: findById_def store0_def post10_def)
  have h2: "count_list (likes post10) (user_id carol) \<le> 1" by (simp add: post10_def carol_def)
  have h3: "user_id carol \<notin> set (likes post10)" by (simp add: post10_def carol_def)
  have h4: "findById comment_id (Comments store0) 20 = Some comment20"
    by (simp add: findById_def store0_def comment20_def)
  have h5: "count_list (comment_likes comment20) (user_id carol) \<le> 1"
    by (simp add: comment20_def carol_def)
  have h6: "user_id carol \<notin> set (comment_likes comment20)" by (simp add: comment20_def carol_def)
  from like_twice_restores_count [of store0 10 post10 carol 20 comment20] h1 h2 h3 h4 h5 h6
  show ?thesis by blast
qed

section \<open>Unliking a blog\<close>

text \<open>
  C10: \<open>DELETE /api/blogs/:id/like\<close> on an existing blog. A user who is not in the
  like array gets status 400 with the message "Blog is not liked", and the store is left
  as it was. For a user who is in it, the stored blog loses exactly this user's entry
  (the first one, at \<open>likeIndex\<close>), and the response carries the new \<open>likeCount\<close>,
  one less than before, with \<open>isLiked\<close> false.
\<close>

theorem unlike_blog_contract:
  assumes "findById blog_id (Blogs st) bid = Some b"
  shows "(user_id u \<notin> set (likes b) \<longrightarrow>
            unlike_blog st u bid = (st, (400, Message ''Blog is not liked''))) \<and>
         (user_id u \<in> set (likes b) \<longrightarrow>
            (\<exists>b'. findById blog_id (Blogs (fst (unlike_blog st u bid))) bid = Some b'
               \<and> likes b' = remove1 (user_id u) (likes b)
               \<and> likeCount b' + 1 = likeCount b
               \<and> snd (unlike_blog st u bid) = (200, LikeResult ''Blog unliked'' (likeCount b') False)))"
proof (intro conjI impI)
  assume "user_id u \<notin> set (likes b)"
  then have "indexOf (likes b) (user_id u) = -1" by (simp add: indexOf_absent)
  with assms show "unlike_blog st u bid = (st, (400, Message ''Blog is not liked''))"
    by (simp add: unlike_blog_def)
next
  assume m: "user_id u \<in> set (likes b)"
  let ?b' = "b\<lparr>likes := remove1 (user_id u) (likes b)\<rparr>"
  have k: "blog_id b = bid" using findById_Some [OF assms] by simp
  have i: "indexOf (likes b) (user_id u) \<noteq> -1" using m by (simp add: indexOf_absent)
  have r: "unlike_blog st u bid =
             (st\<lparr>Blogs := replace_doc blog_id (Blogs st) ?b'\<rparr>,
              (200, LikeResult ''Blog unliked'' (length (likes ?b')) False))"
    using assms i splice_indexOf [OF m]
    by (simp add: unlike_blog_def Let_def save_blog_def pre_save_def)
  have "findById blog_id (replace_doc blog_id (Blogs st) ?b') (blog_id ?b') = Some ?b'"
    unfolding findById_replace_same using assms k by simp
  then have f: "findById blog_id (Blogs (fst (unlike_blog st u bid))) bid = Some ?b'"
    using k by (simp add: r)
  have c: "likeCount ?b' + 1 = likeCount b"
    using m by (simp add: likeCount_def length_remove1) (metis Suc_pred length_pos_if_in_set)
  have s: "snd (unlike_blog st u bid) = (200, LikeResult ''Blog unliked'' (likeCount ?b') False)"
    by (simp add: r likeCount_def)
  from f c s
  show "\<exists>b'. findById blog_id (Blogs (fst (unlike_blog st u bid))) bid = Some b'
               \<and> likes b' = remove1 (user_id u) (likes b)
               \<and> likeCount b' + 1 = likeCount b
               \<and> snd (unlike_blog st u bid) = (200, LikeResult ''Blog unliked'' (likeCount b') False)"
    by (intro exI [of _ ?b']) simp
qed

theorem unlike_blog_contract_witness:
  "findById blog_id (Blogs store0) 10 = Some post10 \<and>
   user_id carol \<notin> set (likes post10) \<and>
   unlike_blog store0 carol 10 = (store0, (400, Message ''Blog is not liked'')) \<and>
   user_id bob \<in> set (likes post10) \<and>
   (\<exists>b'. findById blog_id (Blogs (fst (unlike_blog store0 bob 10))) 10 = Some b'
      \<and> likes b' = [1]
      \<and> snd (unlike_blog store0 bob 10) = (200, LikeResult ''Blog unliked'' 1 False))"
proof -
  have h1: "findById blog_id (Blogs store0) 10 = Some post10"
    by (simp add: findById_def store0_def post10_def)
  have h2: "user_id carol \<notin> set (likes post10)" by (simp add: post10_def carol_def)
  have h3: "user_id bob \<in> set (likes post10)" by (simp add: post10_def bob_def)
  have e: "remove1 (user_id bob) (likes post10) = [1]" "likeCount post10 = 2"
    by (simp_all add: post10_def bob_def likeCount_def)
  from unlike_blog_contract [OF h1, of carol] h2
  have a: "unlike_blog store0 carol 10 = (store0, (400, Message ''Blog is not liked''))" by blast
  from unlike_blog_contract [OF h1, of bob] h3 obtain b' where
    b: "findById blog_id (Blogs (fst (unlike_blog store0 bob 10))) 10 = Some b'"
       "likes b' = remove1 (user_id bob) (likes post10)"
       "likeCount b' + 1 = likeCount post10"
       "snd (unlike_blog store0 bob 10) = (200, LikeResult ''Blog unliked'' (likeCount b') False)"
    by blast
  from b(3) e(2) have "likeCount b' = 1" by simp
  with b e(1) have "findById blog_id (Blogs (fst (unlike_blog store0 bob 10))) 10 = Some b'
      \<and> likes b' = [1]
      \<and> snd (unlike_blog store0 bob 10) = (200, LikeResult ''Blog unliked'' 1 False)" by simp
  with h1 h2 h3 a show ?thesis by blast
qed

section \<open>Who may read a blog\<close>

lemma skip_limit_subset: "skip_limit xs sk lm = Some ys \<Longrightarrow> set ys \<subseteq> set xs"
  by (auto simp: skip_limit_def split: if_splits dest: in_set_takeD in_set_dropD)

lemma set_newest_first: "set (newest_first f xs) = set xs"
  by (simp add: newest_first_def)

lemma set_blog_sort: "set (blog_sort p xs) = set xs"
  by (simp add: blog_sort_def Let_def set_newest_first)

lemma get_blogs_listed:
  assumes "get_blogs ts st q p l = (200, BlogList found pg)"
  shows "set found \<subseteq> {b \<in> set (Blogs st). blog_filter ts q b}"
proof -
  from assms obtain sk lm where
    "skip_limit (blog_sort (q_sort q) (filter (blog_filter ts q) (Blogs st))) sk lm = Some found"
    by (auto simp: get_blogs_def Let_def split: option.splits)
  from skip_limit_subset [OF this] show ?thesis by (simp add: set_blog_sort)
qed

lemma get_blog_visible:
  assumes "findById blog_id (Blogs st) bid = Some b" and "status b = ''published''" and "isPublic b"
  shows "get_blog st req_user bid =
     (save_blog st False (b\<lparr>views := views b + 1\<rparr>),
      (200, BlogResult (b\<lparr>views := views b + 1\<rparr>)
         (case req_user of None \<Rightarrow> None | Some u \<Rightarrow> Some (includes_js (likes b) (user_id u)))))"
  using assms by (simp add: get_blog_def Let_def)

lemma get_blog_hidden_stranger:
  assumes "findById blog_id (Blogs st) bid = Some b"
    and "\<not> (status b = ''published'' \<and> isPublic b)"
    and "case req_user of None \<Rightarrow> True | Some u \<Rightarrow> user_id u \<noteq> author b \<and> role u \<noteq> ''admin''"
  shows "get_blog st req_user bid =
      (st, (if req_user \<noteq> None \<and> findById user_id (Users st) (author b) = None then 500 else 404,
            Message (if req_user \<noteq> None \<and> findById user_id (Users st) (author b) = None
                     then ''Server error'' else ''Blog not found'')))"
proof (cases req_user)
  case None
  with assms show ?thesis by (auto simp: get_blog_def Let_def)
next
  case (Some u)
  show ?thesis
  proof (cases "findById user_id (Users st) (author b)")
    case None
    with Some assms show ?thesis by (auto simp: get_blog_def Let_def)
  next
    case (Some a)
    then have "user_id a = author b" using findById_Some by fastforce
    with Some \<open>req_user = Some u\<close> assms show ?thesis by (auto simp: get_blog_def Let_def)
  qed
qed

text \<open>
  Against C2 as stated: carol is not the author of the draft, and the detail route
  returns it to her (and counts the view), because she is an admin.
\<close>

theorem admin_reads_draft_counterexample:
  "findById blog_id (Blogs store0) 11 = Some draft11 \<and>
   author draft11 \<noteq> user_id carol \<and> status draft11 \<noteq> ''published'' \<and>
   snd (get_blog store0 (Some carol) 11) = (200, BlogResult (draft11\<lparr>views := 1\<rparr>) (Some False))"
  by (simp add: get_blog_def findById_def store0_defs includes_js_def Let_def)

text \<open>
  C2, amended: for a requester who is neither the author of the blog nor an admin
  (signed in or not), \<open>GET /api/blogs/:id\<close> returns the blog exactly when its status is
  \<open>published\<close> and \<open>isPublic\<close> is true; otherwise the answer is 404 and the store is
  untouched, for an anonymous requester and for a signed-in one when the author's account
  exists. \<open>GET /api/blogs\<close> returns only stored blogs with status \<open>published\<close> and
  \<open>isPublic\<close> true.
\<close>

theorem blog_visibility:
  "(findById blog_id (Blogs st) bid = Some b \<and>
    (case req_user of None \<Rightarrow> True | Some u \<Rightarrow> user_id u \<noteq> author b \<and> role u \<noteq> ''admin'') \<longrightarrow>
      ((\<exists>b' l. snd (get_blog st req_user bid) = (200, BlogResult b' l)) \<longleftrightarrow>
         (status b = ''published'' \<and> isPublic b)) \<and>
      (status b = ''published'' \<and> isPublic b \<longrightarrow>
         (\<exists>l. snd (get_blog st req_user bid) = (200, BlogResult (b\<lparr>views := views b + 1\<rparr>) l))) \<and>
      (\<not> (status b = ''published'' \<and> isPublic b) \<and>
         (req_user = None \<or> findById user_id (Users st) (author b) \<noteq> None) \<longrightarrow>
         get_blog st req_user bid = (st, (404, Message ''Blog not found'')))) \<and>
   (get_blogs text_search st q q_page q_limit = (200, BlogList found pg) \<longrightarrow>
      (\<forall>x \<in> set found. x \<in> set (Blogs st) \<and> status x = ''published'' \<and> isPublic x))"
proof (intro conjI impI)
  assume a: "findById blog_id (Blogs st) bid = Some b \<and>
    (case req_user of None \<Rightarrow> True | Some u \<Rightarrow> user_id u \<noteq> author b \<and> role u \<noteq> ''admin'')"
  show "(\<exists>b' l. snd (get_blog st req_user bid) = (200, BlogResult b' l)) \<longleftrightarrow>
         (status b = ''published'' \<and> isPublic b)"
  proof (cases "status b = ''published'' \<and> isPublic b")
    case True
    with a show ?thesis by (simp add: get_blog_visible)
  next
    case False
    with a get_blog_hidden_stranger [of st bid b req_user] show ?thesis by auto
  qed
next
  assume a: "findById blog_id (Blogs st) bid = Some b \<and>
    (case req_user of None \<Rightarrow> True | Some u \<Rightarrow> user_id u \<noteq> author b \<and> role u \<noteq> ''admin'')"
    and v: "status b = ''published'' \<and> isPublic b"
  then show "\<exists>l. snd (get_blog st req_user bid) = (200, BlogResult (b\<lparr>views := views b + 1\<rparr>) l)"
    by (simp add: get_blog_visible)
next
  assume a: "findById blog_id (Blogs st) bid = Some b \<and>
    (case req_user of None \<Rightarrow> True | Some u \<Rightarrow> user_id u \<noteq> author b \<and> role u \<noteq> ''admin'')"
    and h: "\<not> (status b = ''published'' \<and> isPublic b) \<and>
         (req_user = None \<or> findById user_id (Users st) (author b) \<noteq> None)"
  with get_blog_hidden_stranger [of st bid b req_user]
  show "get_blog st req_user bid = (st, (404, Message ''Blog not found''))" by auto
next
  assume "get_blogs text_search st q q_page q_limit = (200, BlogList found pg)"
  from get_blogs_listed [OF this]
  show "\<forall>x \<in> set found. x \<in> set (Blogs st) \<and> status x = ''published'' \<and> isPublic x"
    by (auto simp: blog_filter_def)
qed

text \<open>
  On the small store: bob, who is neither the author nor an admin, gets 404 for the
  draft, and the list of all blogs holds the published blog only.
\<close>

theorem blog_visibility_witness:
  "findById blog_id (Blogs store0) 11 = Some draft11 \<and>
   user_id bob \<noteq> author draft11 \<and> role bob \<noteq> ''admin'' \<and>
   status draft11 \<noteq> ''published'' \<and>
   get_blog store0 (Some bob) 11 = (store0, (404, Message ''Blog not found'')) \<and>
   get_blogs (\<lambda>s b. True) store0 no_filter None None = (200, BlogList [post10] (paginate 1 10 1)) \<and>
   list_all (\<lambda>x. x \<in> set (Blogs store0) \<and> status x = ''published'' \<and> isPublic x) [post10]"
proof -
  have h1: "findById blog_id (Blogs store0) 11 = Some draft11 \<and>
     (case Some bob of None \<Rightarrow> True | Some u \<Rightarrow> user_id u \<noteq> author draft11 \<and> role u \<noteq> ''admin'')"
    by (simp add: findById_def store0_defs)
  have h2: "\<not> (status draft11 = ''published'' \<and> isPublic draft11) \<and>
     (Some bob = None \<or> findById user_id (Users store0) (author draft11) \<noteq> None)"
    by (simp add: findById_def store0_defs)
  have h3: "get_blogs (\<lambda>s b. True) store0 no_filter None None =
              (200, BlogList [post10] (paginate 1 10 1))"
    by (simp add: get_blogs_def number_defs skip_limit_def blog_filter_def blog_sort_def
        newest_first_def no_filter_def store0_defs Let_def)
  note t = blog_visibility [of store0 11 draft11 "Some bob" "\<lambda>s b. True" no_filter None None
      "[post10]" "paginate 1 10 1"]
  from t h1 h2 have a: "get_blog store0 (Some bob) 11 = (store0, (404, Message ''Blog not found''))"
    by blast
  from t h3 have b: "\<forall>x \<in> set [post10]. x \<in> set (Blogs store0) \<and> status x = ''published'' \<and> isPublic x"
    by blast
  from h1 h2 have c: "user_id bob \<noteq> author draft11 \<and> role bob \<noteq> ''admin'' \<and> status draft11 \<noteq> ''published''"
    by (simp add: store0_defs)
  from h1 a h3 b c show ?thesis unfolding list_all_iff by blast
qed

section \<open>Who may change a blog or a comment\<close>

lemma put_blog_found:
  assumes "findById blog_id (Blogs st) bid = Some b"
  shows "put_blog st u [] bid body' =
     (if author b \<noteq> user_id u \<and> role u \<noteq> ''admin''
      then (st, (403, Message ''Not authorized to update this blog''))
      else if \<not> validate_modified b (apply_updates b body') then (st, (500, Message ''Server error''))
      else (save_blog st (content (apply_updates b body') \<noteq> content b) (apply_updates b body'),
            (200, BlogSaved ''Blog updated successfully''
               (findById blog_id
                  (Blogs (save_blog st (content (apply_updates b body') \<noteq> content b)
                            (apply_updates b body'))) (blog_id b)))))"
  using assms by (simp add: put_blog_def Let_def)

lemma put_blog_status:
  "fst (snd (put_blog st u errors bid body')) \<in> {200, 400, 403, 404, 500}"
  by (simp add: put_blog_def Let_def split: option.splits)

lemma put_blog_errors: "errors \<noteq> [] \<Longrightarrow> put_blog st u errors bid body' = (st, (400, Errors errors))"
  by (simp add: put_blog_def)

lemma put_blog_rejected:
  assumes "findById blog_id (Blogs st) bid = Some b" and "author b \<noteq> user_id u" and "role u \<noteq> ''admin''"
  shows "fst (put_blog st u errors bid body') = st"
    and "put_blog st u [] bid body' = (st, (403, Message ''Not authorized to update this blog''))"
  using assms by (simp_all add: put_blog_def)

lemma put_blog_allowed:
  assumes "findById blog_id (Blogs st) bid = Some b" and "author b = user_id u \<or> role u = ''admin''"
  shows "fst (snd (put_blog st u errors bid body')) \<noteq> 403"
  using assms by (auto simp: put_blog_def Let_def)

lemma put_blog_success:
  assumes "fst (snd (put_blog st u errors bid body')) = 200"
  shows "\<exists>b. findById blog_id (Blogs st) bid = Some b \<and> (author b = user_id u \<or> role u = ''admin'')"
  using assms by (auto simp: put_blog_def Let_def split: option.splits if_splits)

lemma delete_blog_found:
  assumes "findById blog_id (Blogs st) bid = Some b"
  shows "delete_blog st u bid =
     (if author b \<noteq> user_id u \<and> role u \<noteq> ''admin''
      then (st, (403, Message ''Not authorized to delete this blog''))
      else (st\<lparr>Blogs := delete_doc blog_id (Blogs st) bid\<rparr>,
            (200, Message ''Blog deleted successfully'')))"
  using assms by (simp add: delete_blog_def)

lemma delete_blog_success:
  assumes "fst (snd (delete_blog st u bid)) = 200"
  shows "\<exists>b. findById blog_id (Blogs st) bid = Some b \<and> (author b = user_id u \<or> role u = ''admin'')"
  using assms by (auto simp: delete_blog_def split: option.splits if_splits)

lemma put_comment_found:
  assumes "findById comment_id (Comments st) cid = Some c"
  shows "put_comment st u [] cid content' =
     (if comment_author c \<noteq> user_id u
      then (st, (403, Message ''Not authorized to update this comment''))
      else (save_comment st (markAsEdited (c\<lparr>comment_content := content'\<rparr>)),
            (200, CommentSaved ''Comment updated successfully''
               (findById comment_id
                  (Comments (save_comment st (markAsEdited (c\<lparr>comment_content := content'\<rparr>))))
                  (comment_id c)))))"
  using assms by (simp add: put_comment_def Let_def)

lemma put_comment_rejected:
  assumes "findById comment_id (Comments st) cid = Some c" and "comment_author c \<noteq> user_id u"
  shows "fst (put_comment st u errors cid content') = st"
  using assms by (simp add: put_comment_def)

lemma put_comment_allowed:
  assumes "findById comment_id (Comments st) cid = Some c" and "comment_author c = user_id u"
  shows "fst (snd (put_comment st u errors cid content')) = (if errors = [] then 200 else 400)"
  using assms by (simp add: put_comment_def Let_def)

lemma put_comment_success:
  assumes "fst (snd (put_comment st u errors cid content')) = 200"
  shows "\<exists>c. findById comment_id (Comments st) cid = Some c \<and> comment_author c = user_id u"
  using assms by (auto simp: put_comment_def Let_def split: option.splits if_splits)

lemma delete_comment_found:
  assumes "findById comment_id (Comments st) cid = Some c"
  shows "delete_comment st u cid =
     (if comment_author c \<noteq> user_id u \<and> role u \<noteq> ''admin''
      then (st, (403, Message ''Not authorized to delete this comment''))
      else (save_comment st (softDelete c), (200, Message ''Comment deleted successfully'')))"
  using assms by (simp add: delete_comment_def)

lemma delete_comment_success:
  assumes "fst (snd (delete_comment st u cid)) = 200"
  shows "\<exists>c. findById comment_id (Comments st) cid = Some c \<and>
             (comment_author c = user_id u \<or> role u = ''admin'')"
  using assms by (auto simp: delete_comment_def split: option.splits if_splits)

text \<open>
  Against C3 as stated: carol is an admin and not the author of the comment, and
  \<open>PUT /api/comments/:id\<close> rejects her with 403.
\<close>

theorem admin_edit_comment_counterexample:
  "findById comment_id (Comments store0) 20 = Some comment20 \<and> role carol = ''admin'' \<and>
   put_comment store0 carol [] 20 (js ''edited'') =
     (store0, (403, Message ''Not authorized to update this comment''))"
  by (simp add: put_comment_def findById_def store0_defs)

text \<open>
  C3, amended: on an existing blog, \<open>PUT\<close> and \<open>DELETE /api/blogs/:id\<close> answer a
  requester who is neither the author nor an admin with 403 (the update once the request
  validators have passed) and leave the store unchanged, and they never answer the author
  or an admin with 403. \<open>DELETE /api/comments/:id\<close> does the same on an existing
  comment. \<open>PUT /api/comments/:id\<close> admits the author only: every other requester,
  an admin too, gets 403 and the store is unchanged. A call of any of the four routes
  that answers 200 was made by a requester the route admits.
\<close>

theorem ownership_checks:
  "(findById blog_id (Blogs st) bid = Some b \<longrightarrow>
      (author b \<noteq> user_id u \<and> role u \<noteq> ''admin'' \<longrightarrow>
         put_blog st u [] bid body' = (st, (403, Message ''Not authorized to update this blog'')) \<and>
         fst (put_blog st u errors bid body') = st \<and>
         delete_blog st u bid = (st, (403, Message ''Not authorized to delete this blog''))) \<and>
      (author b = user_id u \<or> role u = ''admin'' \<longrightarrow>
         fst (snd (put_blog st u errors bid body')) \<noteq> 403 \<and>
         snd (delete_blog st u bid) = (200, Message ''Blog deleted successfully''))) \<and>
   (findById comment_id (Comments st) cid = Some c \<longrightarrow>
      (comment_author c \<noteq> user_id u \<longrightarrow>
         put_comment st u [] cid content' =
           (st, (403, Message ''Not authorized to update this comment'')) \<and>
         fst (put_comment st u errors cid content') = st) \<and>
      (comment_author c = user_id u \<longrightarrow>
         fst (snd (put_comment st u errors cid content')) = (if errors = [] then 200 else 400)) \<and>
      (comment_author c \<noteq> user_id u \<and> role u \<noteq> ''admin'' \<longrightarrow>
         delete_comment st u cid =
           (st, (403, Message ''Not authorized to delete this comment''))) \<and>
      (comment_author c = user_id u \<or> role u = ''admin'' \<longrightarrow>
         snd (delete_comment st u cid) = (200, Message ''Comment deleted successfully''))) \<and>
   (fst (snd (put_blog st u errors bid body')) = 200 \<longrightarrow>
      (\<exists>x. findById blog_id (Blogs st) bid = Some x \<and> (author x = user_id u \<or> role u = ''admin''))) \<and>
   (fst (snd (delete_blog st u bid)) = 200 \<longrightarrow>
      (\<exists>x. findById blog_id (Blogs st) bid = Some x \<and> (author x = user_id u \<or> role u = ''admin''))) \<and>
   (fst (snd (put_comment st u errors cid content')) = 200 \<longrightarrow>
      (\<exists>x. findById comment_id (Comments st) cid = Some x \<and> comment_author x = user_id u)) \<and>
   (fst (snd (delete_comment st u cid)) = 200 \<longrightarrow>
      (\<exists>x. findById comment_id (Comments st) cid = Some x \<and>
           (comment_author x = user_id u \<or> role u = ''admin'')))"
proof -
  have blogs: "findById blog_id (Blogs st) bid = Some b \<longrightarrow>
      (author b \<noteq> user_id u \<and> role u \<noteq> ''admin'' \<longrightarrow>
         put_blog st u [] bid body' = (st, (403, Message ''Not authorized to update this blog'')) \<and>
         fst (put_blog st u errors bid body') = st \<and>
         delete_blog st u bid = (st, (403, Message ''Not authorized to delete this blog''))) \<and>
      (author b = user_id u \<or> role u = ''admin'' \<longrightarrow>
         fst (snd (put_blog st u errors bid body')) \<noteq> 403 \<and>
         snd (delete_blog st u bid) = (200, Message ''Blog deleted successfully''))"
    using put_blog_rejected [where st = st and bid = bid and b = b and u = u]
      put_blog_allowed [where st = st and bid = bid and b = b and u = u]
    by (auto simp: delete_blog_found)
  have comments: "findById comment_id (Comments st) cid = Some c \<longrightarrow>
      (comment_author c \<noteq> user_id u \<longrightarrow>
         put_comment st u [] cid content' =
           (st, (403, Message ''Not authorized to update this comment'')) \<and>
         fst (put_comment st u errors cid content') = st) \<and>
      (comment_author c = user_id u \<longrightarrow>
         fst (snd (put_comment st u errors cid content')) = (if errors = [] then 200 else 400)) \<and>
      (comment_author c \<noteq> user_id u \<and> role u \<noteq> ''admin'' \<longrightarrow>
         delete_comment st u cid =
           (st, (403, Message ''Not authorized to delete this comment''))) \<and>
      (comment_author c = user_id u \<or> role u = ''admin'' \<longrightarrow>
         snd (delete_comment st u cid) = (200, Message ''Comment deleted successfully''))"
    using put_comment_rejected [where st = st and cid = cid and c = c and u = u]
      put_comment_allowed [where st = st and cid = cid and c = c and u = u]
    by (auto simp: delete_comment_found put_comment_found)
  from blogs comments put_blog_success [of st u errors bid body'] delete_blog_success [of st u bid]
    put_comment_success [of st u errors cid content'] delete_comment_success [of st u cid]
  show ?thesis by blast
qed

text \<open>
  On the small store: bob may neither update nor delete alice's blog, and may update and
  delete his own comment.
\<close>

theorem ownership_checks_witness:
  "findById blog_id (Blogs store0) 10 = Some post10 \<and>
   author post10 \<noteq> user_id bob \<and> role bob \<noteq> ''admin'' \<and>
   put_blog store0 bob [] 10 retitle =
     (store0, (403, Message ''Not authorized to update this blog'')) \<and>
   delete_blog store0 bob 10 = (store0, (403, Message ''Not authorized to delete this blog'')) \<and>
   findById comment_id (Comments store0) 20 = Some comment20 \<and>
   comment_author comment20 = user_id bob \<and>
   fst (snd (put_comment store0 bob [] 20 (js ''edited''))) = 200 \<and>
   snd (delete_comment store0 bob 20) = (200, Message ''Comment deleted successfully'')"
proof -
  have h1: "findById blog_id (Blogs store0) 10 = Some post10"
    by (simp add: findById_def store0_defs)
  have h2: "author post10 \<noteq> user_id bob \<and> role bob \<noteq> ''admin''" by (simp add: store0_defs)
  have h3: "findById comment_id (Comments store0) 20 = Some comment20"
    by (simp add: findById_def store0_defs)
  have h4: "comment_author comment20 = user_id bob" by (simp add: store0_defs)
  note t = ownership_checks [of store0 10 post10 bob retitle "[]" 20 comment20 "js ''edited''"]
  from t h1 h2 have a: "put_blog store0 bob [] 10 retitle =
     (store0, (403, Message ''Not authorized to update this blog'')) \<and>
   delete_blog store0 bob 10 = (store0, (403, Message ''Not authorized to delete this blog''))"
    by blast
  from t h3 h4 have b: "fst (snd (put_comment store0 bob [] 20 (js ''edited''))) = (if [] = ([]::string list) then 200 else 400) \<and>
   snd (delete_comment store0 bob 20) = (200, Message ''Comment deleted successfully'')"
    by blast
  from h1 h2 h3 h4 a b show ?thesis by simp
qed

section \<open>Replies and their parents\<close>

lemma post_comment_not_created:
  "fst (snd (post_comment st u errors content' bid parent nid now)) \<noteq> 201 \<Longrightarrow>
   fst (post_comment st u errors content' bid parent nid now) = st"
  by (auto simp: post_comment_def Let_def split: option.splits if_splits)

lemma post_comment_created:
  assumes "fst (snd (post_comment st u errors content' bid parent nid now)) = 201"
  shows "errors = [] \<and> (\<exists>b. findById blog_id (Blogs st) bid = Some b) \<and>
         (\<forall>pid. parent = Some pid \<longrightarrow> (\<exists>p. findById comment_id (Comments st) pid = Some p)) \<and>
         nid \<notin> comment_id ` set (Comments st) \<and>
         Comments (fst (post_comment st u errors content' bid parent nid now)) =
           (case parent of
              None \<Rightarrow> Comments st @ [\<lparr>comment_id = nid, comment_content = content',
                             comment_author = user_id u, comment_blog = bid,
                             parentComment = parent, replies = [],
                             comment_likes = [], isDeleted = False, isEdited = False,
                             comment_createdAt = now\<rparr>]
            | Some pid \<Rightarrow> update_doc comment_id
                 (Comments st @ [\<lparr>comment_id = nid, comment_content = content',
                             comment_author = user_id u, comment_blog = bid,
                             parentComment = parent, replies = [],
                             comment_likes = [], isDeleted = False, isEdited = False,
                             comment_createdAt = now\<rparr>]) pid
                 (\<lambda>p. p\<lparr>replies := push (replies p) nid\<rparr>))"
  using assms
  by (auto simp: post_comment_def insert_doc_def Let_def split: option.splits if_splits)

lemma post_comment_parent_missing:
  assumes "errors = []" and "findById blog_id (Blogs st) bid \<noteq> None"
    and "findById comment_id (Comments st) pid = None"
  shows "post_comment st u errors content' bid (Some pid) nid now =
           (st, (404, Message ''Parent comment not found''))"
  using assms by (auto simp: post_comment_def)

lemma update_replies_ids:
  "comment_id ` set (update_doc comment_id cs pid (\<lambda>p. p\<lparr>replies := push (replies p) nid\<rparr>)) =
   comment_id ` set cs"
  unfolding update_doc_def by (induction cs) auto

lemma update_replies_parent:
  "x \<in> set (update_doc comment_id cs pid (\<lambda>p. p\<lparr>replies := push (replies p) nid\<rparr>)) \<Longrightarrow>
   \<exists>y \<in> set cs. parentComment x = parentComment y"
  unfolding update_doc_def by (induction cs) auto

lemma post_comment_parents:
  assumes inv: "\<forall>c \<in> set (Comments st). \<forall>p. parentComment c = Some p \<longrightarrow> p \<in> comment_id ` set (Comments st)"
  shows "\<forall>c \<in> set (Comments (fst (post_comment st u errors content' bid parent nid now))).
           \<forall>p. parentComment c = Some p \<longrightarrow>
             p \<in> comment_id ` set (Comments (fst (post_comment st u errors content' bid parent nid now)))"
proof (cases "fst (snd (post_comment st u errors content' bid parent nid now)) = 201")
  case False
  with inv show ?thesis by (simp add: post_comment_not_created)
next
  case True
  let ?new = "\<lparr>comment_id = nid, comment_content = content',
                             comment_author = user_id u, comment_blog = bid,
                             parentComment = parent, replies = [],
                             comment_likes = [], isDeleted = False, isEdited = False,
                             comment_createdAt = now\<rparr>"
  let ?cs = "Comments st @ [?new]"
  from post_comment_created [OF True] have
    par: "\<forall>pid. parent = Some pid \<longrightarrow> (\<exists>p. findById comment_id (Comments st) pid = Some p)"
    by (elim conjE)
  from post_comment_created [OF True] have
    res: "Comments (fst (post_comment st u errors content' bid parent nid now)) =
           (case parent of None \<Rightarrow> ?cs
            | Some pid \<Rightarrow> update_doc comment_id ?cs pid (\<lambda>p. p\<lparr>replies := push (replies p) nid\<rparr>))"
    by (elim conjE)
  have base: "\<forall>c \<in> set ?cs. \<forall>p. parentComment c = Some p \<longrightarrow> p \<in> comment_id ` set ?cs"
  proof (intro ballI allI impI)
    fix c p assume c: "c \<in> set ?cs" and p: "parentComment c = Some p"
    show "p \<in> comment_id ` set ?cs"
    proof (cases "c = ?new")
      case True
      with p have "parent = Some p" by simp
      with par obtain q where "findById comment_id (Comments st) p = Some q" by blast
      from findById_Some [OF this] show ?thesis by auto
    next
      case False
      with c have "c \<in> set (Comments st)" by simp
      with inv p show ?thesis by auto
    qed
  qed
  show ?thesis
  proof (cases parent)
    case None
    with res base show ?thesis by simp
  next
    case (Some pid)
    with res have r: "Comments (fst (post_comment st u errors content' bid parent nid now)) =
       update_doc comment_id ?cs pid (\<lambda>p. p\<lparr>replies := push (replies p) nid\<rparr>)" by simp
    show ?thesis unfolding r
    proof (intro ballI allI impI)
      fix c p
      assume c: "c \<in> set (update_doc comment_id ?cs pid (\<lambda>p. p\<lparr>replies := push (replies p) nid\<rparr>))"
        and p: "parentComment c = Some p"
      from update_replies_parent [OF c] obtain y where "y \<in> set ?cs" "parentComment c = parentComment y"
        by blast
      with p base have "p \<in> comment_id ` set ?cs" by metis
      then show "p \<in> comment_id ` set (update_doc comment_id ?cs pid (\<lambda>p. p\<lparr>replies := push (replies p) nid\<rparr>))"
        by (simp only: update_replies_ids)
    qed
  qed
qed

text \<open>
  Against C4 as stated: comment 22 is a comment on blog 11. A reply to it posted with
  \<open>blogId\<close> 10 is created with status 201; the new comment belongs to blog 10 and its
  parent to blog 11.
\<close>

theorem reply_across_blogs_counterexample:
  "map_option comment_blog (findById comment_id (Comments store0) 22) = Some 11 \<and>
   fst (snd (post_comment store0 bob [] (js ''hi'') 10 (Some 22) 23 300)) = 201 \<and>
   map_option (\<lambda>c. (comment_blog c, parentComment c))
     (findById comment_id
        (Comments (fst (post_comment store0 bob [] (js ''hi'') 10 (Some 22) 23 300))) 23)
     = Some (10, Some 22)"
  by (simp add: post_comment_def insert_doc_def update_doc_def push_def findById_def store0_defs Let_def)

text \<open>
  C4, amended: \<open>POST /api/comments\<close> with a \<open>parentCommentId\<close> succeeds (status 201)
  only if that parent exists as a comment, on whatever blog (the handler looks the parent
  up by its identifier and does not compare its blog with \<open>blogId\<close>), and if the
  blog exists. A request that does not answer 201 creates nothing and leaves the store as
  it was; a valid request on an existing blog whose parent does not exist is answered with
  404. So the handler keeps the property that every \<open>parentComment\<close> reference
  names an existing comment.
\<close>

theorem reply_parent_exists:
  "(fst (snd (post_comment st u errors content' bid (Some pid) nid now)) = 201 \<longrightarrow>
      (\<exists>p. findById comment_id (Comments st) pid = Some p) \<and>
      (\<exists>b. findById blog_id (Blogs st) bid = Some b)) \<and>
   (fst (snd (post_comment st u errors content' bid parent nid now)) \<noteq> 201 \<longrightarrow>
      fst (post_comment st u errors content' bid parent nid now) = st) \<and>
   (errors = [] \<and> findById blog_id (Blogs st) bid \<noteq> None \<and>
    findById comment_id (Comments st) pid = None \<longrightarrow>
      post_comment st u errors content' bid (Some pid) nid now =
        (st, (404, Message ''Parent comment not found''))) \<and>
   ((\<forall>c \<in> set (Comments st). \<forall>p. parentComment c = Some p \<longrightarrow>
        p \<in> comment_id ` set (Comments st)) \<longrightarrow>
    (\<forall>c \<in> set (Comments (fst (post_comment st u errors content' bid parent nid now))).
       \<forall>p. parentComment c = Some p \<longrightarrow>
         p \<in> comment_id ` set (Comments (fst (post_comment st u errors content' bid parent nid now)))))"
proof (intro conjI impI)
  assume "fst (snd (post_comment st u errors content' bid (Some pid) nid now)) = 201"
  from post_comment_created [OF this]
  show "\<exists>p. findById comment_id (Comments st) pid = Some p"
    and "\<exists>b. findById blog_id (Blogs st) bid = Some b"
    by simp_all
next
  assume "fst (snd (post_comment st u errors content' bid parent nid now)) \<noteq> 201"
  then show "fst (post_comment st u errors content' bid parent nid now) = st"
    by (rule post_comment_not_created)
next
  assume "errors = [] \<and> findById blog_id (Blogs st) bid \<noteq> None \<and>
    findById comment_id (Comments st) pid = None"
  then show "post_comment st u errors content' bid (Some pid) nid now =
        (st, (404, Message ''Parent comment not found''))"
    by (simp add: post_comment_parent_missing)
next
  assume "\<forall>c \<in> set (Comments st). \<forall>p. parentComment c = Some p \<longrightarrow>
        p \<in> comment_id ` set (Comments st)"
  then show "\<forall>c \<in> set (Comments (fst (post_comment st u errors content' bid parent nid now))).
       \<forall>p. parentComment c = Some p \<longrightarrow>
         p \<in> comment_id ` set (Comments (fst (post_comment st u errors content' bid parent nid now)))"
    by (rule post_comment_parents)
qed

text \<open>
  On the small store: a reply to comment 20 on its blog is created, and a reply to a
  comment that does not exist is rejected with 404.
\<close>

theorem reply_parent_exists_witness:
  "fst (snd (post_comment store0 bob [] (js ''hi'') 10 (Some 20) 23 300)) = 201 \<and>
   (\<exists>p. findById comment_id (Comments store0) 20 = Some p) \<and>
   findById blog_id (Blogs store0) 10 \<noteq> None \<and>
   findById comment_id (Comments store0) 99 = None \<and>
   post_comment store0 bob [] (js ''hi'') 10 (Some 99) 23 300 =
     (store0, (404, Message ''Parent comment not found''))"
proof -
  have h1: "fst (snd (post_comment store0 bob [] (js ''hi'') 10 (Some 20) 23 300)) = 201"
    by (simp add: post_comment_def insert_doc_def findById_def store0_defs Let_def)
  have h2: "([] :: string list) = [] \<and> findById blog_id (Blogs store0) 10 \<noteq> None \<and>
    findById comment_id (Comments store0) 99 = None"
    by (simp add: findById_def store0_defs)
  from reply_parent_exists [of store0 bob "[]" "js ''hi''" 10 20 23 300 "Some 20"] h1
  have a: "\<exists>p. findById comment_id (Comments store0) 20 = Some p" by blast
  from reply_parent_exists [of store0 bob "[]" "js ''hi''" 10 99 23 300 "Some 99"] h2
  have b: "post_comment store0 bob [] (js ''hi'') 10 (Some 99) 23 300 =
     (store0, (404, Message ''Parent comment not found''))" by blast
  from h1 h2 a b show ?thesis by blast
qed

section \<open>Soft-deleted comments\<close>

lemma in_map_filter: "y \<in> set (List.map_filter g xs) \<Longrightarrow> \<exists>x \<in> set xs. g x = Some y"
  by (induction xs) (auto split: option.splits)

lemma populate_replies_shown:
  assumes "r \<in> set (view_replies (populate_replies coll c))"
  shows "r \<in> set coll \<and> isDeleted r = False \<and> comment_id r \<in> set (replies c)"
proof -
  from assms obtain i where i: "i \<in> set (replies c)"
    and f: "(case findById comment_id coll i of None \<Rightarrow> None
             | Some x \<Rightarrow> if isDeleted x = False then Some x else None) = Some r"
    using in_map_filter [of r _ "replies c"] by (fastforce simp: populate_replies_def)
  from f obtain x where x: "findById comment_id coll i = Some x" by (cases "findById comment_id coll i") auto
  with f have "x = r" "isDeleted r = False" by (auto split: if_splits)
  with findById_Some [OF x] i show ?thesis by auto
qed

lemma get_comments_blog_listed:
  assumes "get_comments_blog st bid p l = (200, CommentList vs pg)"
  shows "\<forall>v \<in> set vs. view_comment v \<in> set (Comments st) \<and> isDeleted (view_comment v) = False \<and>
           comment_blog (view_comment v) = bid \<and> parentComment (view_comment v) = None \<and>
           (\<forall>r \<in> set (view_replies v). r \<in> set (Comments st) \<and> isDeleted r = False)"
proof -
  let ?m = "filter (\<lambda>c. comment_blog c = bid \<and> parentComment c = None \<and> isDeleted c = False) (Comments st)"
  from assms obtain sk lm found where
    f: "skip_limit (newest_first comment_createdAt ?m) sk lm = Some found"
    and vs: "vs = map (populate_replies (Comments st)) found"
    by (auto simp: get_comments_blog_def Let_def split: option.splits)
  from skip_limit_subset [OF f] have sub: "set found \<subseteq> set ?m" by (simp add: set_newest_first)
  show ?thesis
  proof
    fix v assume "v \<in> set vs"
    with vs obtain c where c: "c \<in> set found" and v: "v = populate_replies (Comments st) c" by auto
    from c sub have "c \<in> set ?m" by blast
    moreover have "view_comment v = c" using v by (simp add: populate_replies_def)
    moreover have "\<forall>r \<in> set (view_replies v). r \<in> set (Comments st) \<and> isDeleted r = False"
      using v populate_replies_shown by blast
    ultimately show "view_comment v \<in> set (Comments st) \<and> isDeleted (view_comment v) = False \<and>
           comment_blog (view_comment v) = bid \<and> parentComment (view_comment v) = None \<and>
           (\<forall>r \<in> set (view_replies v). r \<in> set (Comments st) \<and> isDeleted r = False)"
      by simp
  qed
qed

lemma get_comments_user_listed:
  assumes "get_comments_user st uid p l = (200, UserCommentList found pg)"
  shows "\<forall>x \<in> set found. x \<in> set (Comments st) \<and> isDeleted x = False \<and> comment_author x = uid"
proof -
  let ?m = "filter (\<lambda>c. comment_author c = uid \<and> isDeleted c = False) (Comments st)"
  from assms obtain sk lm where
    f: "skip_limit (newest_first comment_createdAt ?m) sk lm = Some found"
    by (auto simp: get_comments_user_def Let_def split: option.splits)
  from skip_limit_subset [OF f] have "set found \<subseteq> set ?m" by (simp add: set_newest_first)
  then show ?thesis by auto
qed

lemma distinct_ids_eq:
  assumes "distinct (map key coll)" and "x \<in> set coll" and "y \<in> set coll" and "key x = key y"
  shows "x = y"
  using assms by (meson distinct_map inj_onD)

text \<open>
  C7: a soft-deleted comment is in no comment listing. Every top-level comment and
  every reply that \<open>GET /api/comments/blog/:blogId\<close> shows, and every comment that
  \<open>GET /api/comments/user/:userId\<close> shows, is a stored comment with \<open>isDeleted\<close>
  false; so, identifiers being unique, the identifier of a stored comment with
  \<open>isDeleted\<close> true is not among the listed ones.
\<close>

theorem deleted_comments_not_listed:
  "(get_comments_blog st bid q_page q_limit = (200, CommentList vs pg) \<longrightarrow>
      (\<forall>v \<in> set vs. isDeleted (view_comment v) = False \<and>
                      (\<forall>r \<in> set (view_replies v). isDeleted r = False)) \<and>
      (\<forall>x \<in> set (shown_comments vs). x \<in> set (Comments st) \<and> isDeleted x = False) \<and>
      (distinct (map comment_id (Comments st)) \<and> d \<in> set (Comments st) \<and> isDeleted d \<longrightarrow>
         comment_id d \<notin> comment_id ` set (shown_comments vs))) \<and>
   (get_comments_user st uid q_page' q_limit' = (200, UserCommentList found pg') \<longrightarrow>
      (\<forall>x \<in> set found. x \<in> set (Comments st) \<and> isDeleted x = False) \<and>
      (distinct (map comment_id (Comments st)) \<and> d \<in> set (Comments st) \<and> isDeleted d \<longrightarrow>
         comment_id d \<notin> comment_id ` set found))"
proof (intro conjI impI)
  assume a: "get_comments_blog st bid q_page q_limit = (200, CommentList vs pg)"
  note l = get_comments_blog_listed [OF a]
  from l show "\<forall>v \<in> set vs. isDeleted (view_comment v) = False \<and>
                      (\<forall>r \<in> set (view_replies v). isDeleted r = False)" by blast
  from l show s: "\<forall>x \<in> set (shown_comments vs). x \<in> set (Comments st) \<and> isDeleted x = False"
    by (auto simp: shown_comments_def)
  assume d: "distinct (map comment_id (Comments st)) \<and> d \<in> set (Comments st) \<and> isDeleted d"
  show "comment_id d \<notin> comment_id ` set (shown_comments vs)"
  proof
    assume "comment_id d \<in> comment_id ` set (shown_comments vs)"
    then obtain x where x: "x \<in> set (shown_comments vs)" "comment_id d = comment_id x" by blast
    with s have "x \<in> set (Comments st)" "isDeleted x = False" by auto
    with d x distinct_ids_eq [of comment_id "Comments st" d x] show False by auto
  qed
next
  assume a: "get_comments_user st uid q_page' q_limit' = (200, UserCommentList found pg')"
  note l = get_comments_user_listed [OF a]
  from l show s: "\<forall>x \<in> set found. x \<in> set (Comments st) \<and> isDeleted x = False" by blast
  assume d: "distinct (map comment_id (Comments st)) \<and> d \<in> set (Comments st) \<and> isDeleted d"
  show "comment_id d \<notin> comment_id ` set found"
  proof
    assume "comment_id d \<in> comment_id ` set found"
    then obtain x where x: "x \<in> set found" "comment_id d = comment_id x" by blast
    with s have "x \<in> set (Comments st)" "isDeleted x = False" by auto
    with d x distinct_ids_eq [of comment_id "Comments st" d x] show False by auto
  qed
qed

text \<open>
  On the small store: comment 21 is a deleted reply to comment 20, written by alice. The
  comments of blog 10 show comment 20 without it, and alice's comments show comment 22
  only.
\<close>

theorem deleted_comments_not_listed_witness:
  "get_comments_blog store0 10 None None =
     (200, CommentList [\<lparr>view_comment = comment20, view_replies = []\<rparr>] (paginate 1 20 1)) \<and>
   get_comments_user store0 1 None None = (200, UserCommentList [comment22] (paginate 1 20 1)) \<and>
   distinct (map comment_id (Comments store0)) \<and> comment21 \<in> set (Comments store0) \<and>
   isDeleted comment21 \<and>
   comment_id comment21 \<notin>
     comment_id ` set (shown_comments [\<lparr>view_comment = comment20, view_replies = []\<rparr>]) \<and>
   comment_id comment21 \<notin> comment_id ` set [comment22]"
proof -
  have h1: "get_comments_blog store0 10 None None =
     (200, CommentList [\<lparr>view_comment = comment20, view_replies = []\<rparr>] (paginate 1 20 1))"
    by (simp add: get_comments_blog_def number_defs skip_limit_def newest_first_def
        populate_replies_def findById_def store0_defs Let_def)
  have h2: "get_comments_user store0 1 None None =
     (200, UserCommentList [comment22] (paginate 1 20 1))"
    by (simp add: get_comments_user_def number_defs skip_limit_def newest_first_def
        findById_def store0_defs Let_def)
  have h3: "distinct (map comment_id (Comments store0)) \<and> comment21 \<in> set (Comments store0) \<and>
    isDeleted comment21"
    by (simp add: store0_defs)
  note t = deleted_comments_not_listed [of store0 10 None None
      "[\<lparr>view_comment = comment20, view_replies = []\<rparr>]" "paginate 1 20 1" comment21
      1 None None "[comment22]" "paginate 1 20 1"]
  from t h1 h3 have a: "comment_id comment21 \<notin>
     comment_id ` set (shown_comments [\<lparr>view_comment = comment20, view_replies = []\<rparr>])"
    by blast
  from t h2 h3 have b: "comment_id comment21 \<notin> comment_id ` set [comment22]" by blast
  from h1 h2 h3 a b show ?thesis by blast
qed

text \<open>
  The state that C7 speaks of is the one \<open>DELETE /api/comments/:id\<close> produces: the
  comment stays in the collection with \<open>isDeleted\<close> true (through \<open>softDelete\<close>, which
  is modelled from the spec).
\<close>

lemma delete_comment_soft:
  assumes "fst (snd (delete_comment st u cid)) = 200"
  shows "\<exists>c'. findById comment_id (Comments (fst (delete_comment st u cid))) cid = Some c' \<and>
               isDeleted c' \<and>
               length (Comments (fst (delete_comment st u cid))) = length (Comments st)"
proof -
  from delete_comment_success [OF assms] obtain c where
    c: "findById comment_id (Comments st) cid = Some c"
    and ok: "comment_author c = user_id u \<or> role u = ''admin''" by blast
  have k: "comment_id (softDelete c) = cid" using findById_Some [OF c] by (simp add: softDelete_def)
  have r: "fst (delete_comment st u cid) = save_comment st (softDelete c)"
    using ok by (auto simp: delete_comment_found [OF c])
  have "findById comment_id (replace_doc comment_id (Comments st) (softDelete c))
          (comment_id (softDelete c)) = Some (softDelete c)"
    unfolding findById_replace_same using c k by simp
  then show ?thesis
    using k by (simp add: r save_comment_def softDelete_def replace_doc_def)
qed

section \<open>Following\<close>

lemma follow_user_found:
  assumes v: "findById user_id (Users st) target = Some v" and ne: "user_id u \<noteq> target"
  shows "follow_user st u target =
     (let isFollowing = (target \<in> set (following u));
          u' = (if isFollowing then u\<lparr>following := filter (\<lambda>i. i \<noteq> target) (following u)\<rparr>
                else u\<lparr>following := following u @ [target]\<rparr>);
          v' = (if isFollowing then v\<lparr>followers := filter (\<lambda>i. i \<noteq> user_id u) (followers v)\<rparr>
                else v\<lparr>followers := followers v @ [user_id u]\<rparr>)
      in (save_user (save_user st u') v',
          (200, FollowResult (if isFollowing then ''User unfollowed'' else ''User followed'')
                  (\<not> isFollowing))))"
proof -
  have k: "user_id v = target" using findById_Some [OF v] by simp
  with v ne show ?thesis
    by (simp add: follow_user_def Let_def includes_js_def push_def)
qed

lemma save_two_users:
  assumes u: "findById user_id (Users st) (user_id u') = Some u0"
    and v: "findById user_id (Users st) (user_id v') = Some v0"
    and ne: "user_id u' \<noteq> user_id v'"
  shows "findById user_id (Users (save_user (save_user st u') v')) (user_id u') = Some u'"
    and "findById user_id (Users (save_user (save_user st u') v')) (user_id v') = Some v'"
proof -
  have 1: "findById user_id (replace_doc user_id (Users st) u') (user_id u') = Some u'"
    unfolding findById_replace_same using u by simp
  have 2: "findById user_id (replace_doc user_id (Users st) u') (user_id v') = Some v0"
    using findById_replace_other [of "user_id v'" user_id u' "Users st"] ne v by simp
  show "findById user_id (Users (save_user (save_user st u') v')) (user_id u') = Some u'"
    using findById_replace_other [of "user_id u'" user_id v' "replace_doc user_id (Users st) u'"] ne 1
    by (simp add: save_user_def)
  have "findById user_id (replace_doc user_id (replace_doc user_id (Users st) u') v') (user_id v') = Some v'"
    unfolding findById_replace_same using 2 by simp
  then show "findById user_id (Users (save_user (save_user st u') v')) (user_id v') = Some v'"
    by (simp add: save_user_def)
qed

text \<open>
  C8: \<open>POST /api/users/:id/follow\<close> by the signed-in user \<open>u\<close> on another stored
  user \<open>v\<close>, with \<open>u\<close> the stored document of the requester. The call answers 200,
  and afterwards \<open>v\<close> is in \<open>u.following\<close> exactly when \<open>u\<close> is in \<open>v.followers\<close>;
  membership of \<open>v\<close> in \<open>u.following\<close> is the opposite of what it was and, in a state
  where the two arrays agreed on the pair, so is membership of \<open>u\<close> in
  \<open>v.followers\<close>. Following appends \<open>v\<close> to \<open>u.following\<close> and \<open>u\<close> to
  \<open>v.followers\<close>, unfollowing filters both out, and the other two arrays are untouched.
  The \<open>isFollowing\<close> of the response is the membership of \<open>v\<close> in \<open>u.following\<close>
  after the call.
\<close>

theorem follow_toggle_consistent:
  assumes u: "findById user_id (Users st) (user_id u) = Some u"
    and v: "findById user_id (Users st) target = Some v"
    and ne: "user_id u \<noteq> target"
  shows "\<exists>u' v' msg.
     follow_user st u target =
       (fst (follow_user st u target), (200, FollowResult msg (target \<in> set (following u')))) \<and>
     findById user_id (Users (fst (follow_user st u target))) (user_id u) = Some u' \<and>
     findById user_id (Users (fst (follow_user st u target))) target = Some v' \<and>
     (target \<in> set (following u') \<longleftrightarrow> user_id u \<in> set (followers v')) \<and>
     (target \<in> set (following u') \<longleftrightarrow> target \<notin> set (following u)) \<and>
     ((target \<in> set (following u) \<longleftrightarrow> user_id u \<in> set (followers v)) \<longrightarrow>
        (user_id u \<in> set (followers v') \<longleftrightarrow> user_id u \<notin> set (followers v))) \<and>
     (target \<notin> set (following u) \<longrightarrow>
        following u' = following u @ [target] \<and> followers v' = followers v @ [user_id u]) \<and>
     (target \<in> set (following u) \<longrightarrow>
        following u' = filter (\<lambda>i. i \<noteq> target) (following u) \<and>
        followers v' = filter (\<lambda>i. i \<noteq> user_id u) (followers v)) \<and>
     followers u' = followers u \<and> following v' = following v"
proof -
  have k: "user_id v = target" using findById_Some [OF v] by simp
  show ?thesis
  proof (cases "target \<in> set (following u)")
    case True
    let ?u' = "u\<lparr>following := filter (\<lambda>i. i \<noteq> target) (following u)\<rparr>"
    let ?v' = "v\<lparr>followers := filter (\<lambda>i. i \<noteq> user_id u) (followers v)\<rparr>"
    have r: "follow_user st u target =
        (save_user (save_user st ?u') ?v', (200, FollowResult ''User unfollowed'' False))"
      using True by (simp add: follow_user_found [OF v ne] Let_def)
    have s: "findById user_id (Users (save_user (save_user st ?u') ?v')) (user_id ?u') = Some ?u'"
            "findById user_id (Users (save_user (save_user st ?u') ?v')) (user_id ?v') = Some ?v'"
      using save_two_users [of st ?u' u ?v' v] u v ne k by simp_all
    show ?thesis
      apply (rule exI [of _ ?u'], rule exI [of _ ?v'], rule exI [of _ "''User unfollowed''"])
      using True s k by (simp add: r)
  next
    case False
    let ?u' = "u\<lparr>following := following u @ [target]\<rparr>"
    let ?v' = "v\<lparr>followers := followers v @ [user_id u]\<rparr>"
    have r: "follow_user st u target =
        (save_user (save_user st ?u') ?v', (200, FollowResult ''User followed'' True))"
      using False by (simp add: follow_user_found [OF v ne] Let_def)
    have s: "findById user_id (Users (save_user (save_user st ?u') ?v')) (user_id ?u') = Some ?u'"
            "findById user_id (Users (save_user (save_user st ?u') ?v')) (user_id ?v') = Some ?v'"
      using save_two_users [of st ?u' u ?v' v] u v ne k by simp_all
    show ?thesis
      apply (rule exI [of _ ?u'], rule exI [of _ ?v'], rule exI [of _ "''User followed''"])
      using False s k by (simp add: r)
  qed
qed

text \<open>
  On the small store: bob follows alice, and both arrays say so. His call unfollows her
  and empties both.
\<close>

theorem follow_toggle_consistent_witness:
  "findById user_id (Users store0) (user_id bob) = Some bob \<and>
   findById user_id (Users store0) 1 = Some alice \<and> user_id bob \<noteq> 1 \<and>
   (\<exists>u' v' msg.
      follow_user store0 bob 1 = (fst (follow_user store0 bob 1), (200, FollowResult msg False)) \<and>
      findById user_id (Users (fst (follow_user store0 bob 1))) (user_id bob) = Some u' \<and>
      findById user_id (Users (fst (follow_user store0 bob 1))) 1 = Some v' \<and>
      following u' = [] \<and> followers v' = [])"
proof -
  have h1: "findById user_id (Users store0) (user_id bob) = Some bob"
    by (simp add: findById_def store0_defs)
  have h2: "findById user_id (Users store0) 1 = Some alice"
    by (simp add: findById_def store0_defs)
  have h3: "user_id bob \<noteq> 1" by (simp add: bob_def)
  have h4: "1 \<in> set (following bob)" "filter (\<lambda>i. i \<noteq> 1) (following bob) = []"
    "filter (\<lambda>i. i \<noteq> user_id bob) (followers alice) = []"
    by (simp_all add: bob_def alice_def)
  from follow_toggle_consistent [OF h1 h2 h3] obtain u' v' msg where
    r: "follow_user store0 bob 1 =
          (fst (follow_user store0 bob 1), (200, FollowResult msg (1 \<in> set (following u'))))"
       "findById user_id (Users (fst (follow_user store0 bob 1))) (user_id bob) = Some u'"
       "findById user_id (Users (fst (follow_user store0 bob 1))) 1 = Some v'"
       "(1 \<in> set (following u')) = (1 \<notin> set (following bob))"
       "1 \<in> set (following bob) \<longrightarrow>
          following u' = filter (\<lambda>i. i \<noteq> 1) (following bob) \<and>
          followers v' = filter (\<lambda>i. i \<noteq> user_id bob) (followers alice)"
    by blast
  from r(4) h4(1) have n: "(1 \<in> set (following u')) = False" by simp
  from r(5) h4 have e: "following u' = [] \<and> followers v' = []" by simp
  from r(1) n have "follow_user store0 bob 1 =
          (fst (follow_user store0 bob 1), (200, FollowResult msg False))" by simp
  with r(2,3) e h1 h2 h3 show ?thesis by blast
qed

text \<open>
  The agreement of the two arrays on all pairs of stored users is kept by every call of
  the route, whatever it answers.
\<close>

lemma set_replace_doc_found:
  assumes "d0 \<in> set coll" and "key d0 = key d"
  shows "set (replace_doc key coll d) = insert d {x \<in> set coll. key x \<noteq> key d}"
  using assms unfolding replace_doc_def by auto

lemma follow_user_users:
  assumes u: "findById user_id (Users st) (user_id u) = Some u"
    and v: "findById user_id (Users st) target = Some v"
    and ne: "user_id u \<noteq> target"
  shows "\<exists>u' v'. set (Users (fst (follow_user st u target))) =
            {u', v'} \<union> {x \<in> set (Users st). user_id x \<noteq> user_id u \<and> user_id x \<noteq> target} \<and>
          user_id u' = user_id u \<and> user_id v' = target \<and>
          followers u' = followers u \<and> following v' = following v \<and>
          (\<forall>i. i \<noteq> target \<longrightarrow> (i \<in> set (following u')) = (i \<in> set (following u))) \<and>
          (\<forall>i. i \<noteq> user_id u \<longrightarrow> (i \<in> set (followers v')) = (i \<in> set (followers v))) \<and>
          (target \<in> set (following u')) = (user_id u \<in> set (followers v'))"
proof -
  have ku: "u \<in> set (Users st)" using findById_Some [OF u] by simp
  have kv: "v \<in> set (Users st)" "user_id v = target" using findById_Some [OF v] by simp_all
  let ?F = "target \<in> set (following u)"
  let ?u' = "if ?F then u\<lparr>following := filter (\<lambda>i. i \<noteq> target) (following u)\<rparr>
             else u\<lparr>following := following u @ [target]\<rparr>"
  let ?v' = "if ?F then v\<lparr>followers := filter (\<lambda>i. i \<noteq> user_id u) (followers v)\<rparr>
             else v\<lparr>followers := followers v @ [user_id u]\<rparr>"
  have r: "fst (follow_user st u target) = save_user (save_user st ?u') ?v'"
    by (simp add: follow_user_found [OF v ne] Let_def)
  have iu: "user_id ?u' = user_id u" and iv: "user_id ?v' = target" using kv by simp_all
  have s1: "set (replace_doc user_id (Users st) ?u') =
              insert ?u' {x \<in> set (Users st). user_id x \<noteq> user_id u}"
    using set_replace_doc_found [of u "Users st" user_id ?u'] ku iu by simp
  have "v \<in> set (replace_doc user_id (Users st) ?u')"
    unfolding s1 using kv ne by auto
  from set_replace_doc_found [OF this, of user_id ?v'] kv iv
  have s2: "set (replace_doc user_id (replace_doc user_id (Users st) ?u') ?v') =
              insert ?v' {x \<in> set (replace_doc user_id (Users st) ?u'). user_id x \<noteq> target}"
    by simp
  have s: "set (Users (fst (follow_user st u target))) =
            {?u', ?v'} \<union> {x \<in> set (Users st). user_id x \<noteq> user_id u \<and> user_id x \<noteq> target}"
    unfolding r save_user_def using s2 s1 iu iv ne by auto
  show ?thesis
    apply (rule exI [of _ ?u'], rule exI [of _ ?v'])
    using s kv ne by auto
qed

lemma follow_user_unchanged:
  "findById user_id (Users st) target = None \<or> user_id u = target \<Longrightarrow>
   fst (follow_user st u target) = st"
  by (auto simp: follow_user_def dest: findById_Some split: option.splits)

lemma follow_user_keeps_mutual:
  assumes u: "findById user_id (Users st) (user_id u) = Some u" and m: "mutual st"
  shows "mutual (fst (follow_user st u target))"
proof (cases "findById user_id (Users st) target = None \<or> user_id u = target")
  case True
  with m show ?thesis by (simp add: follow_user_unchanged)
next
  case False
  then obtain v where v: "findById user_id (Users st) target = Some v" and ne: "user_id u \<noteq> target"
    by auto
  have ku: "u \<in> set (Users st)" using findById_Some [OF u] by simp
  have kv: "v \<in> set (Users st)" "user_id v = target" using findById_Some [OF v] by simp_all
  from follow_user_users [OF u v ne] obtain u' v' where
    s: "set (Users (fst (follow_user st u target))) =
          {u', v'} \<union> {x \<in> set (Users st). user_id x \<noteq> user_id u \<and> user_id x \<noteq> target}"
    and iu: "user_id u' = user_id u" and iv: "user_id v' = target"
    and fu: "followers u' = followers u" and fv: "following v' = following v"
    and gu: "\<forall>i. i \<noteq> target \<longrightarrow> (i \<in> set (following u')) = (i \<in> set (following u))"
    and gv: "\<forall>i. i \<noteq> user_id u \<longrightarrow> (i \<in> set (followers v')) = (i \<in> set (followers v))"
    and t: "(target \<in> set (following u')) = (user_id u \<in> set (followers v'))"
    by blast
  have muu: "(user_id u \<in> set (following u)) = (user_id u \<in> set (followers u))"
    and muv: "(target \<in> set (following u)) = (user_id u \<in> set (followers v))"
    and mvu: "(user_id u \<in> set (following v)) = (target \<in> set (followers u))"
    and mvv: "(target \<in> set (following v)) = (target \<in> set (followers v))"
    using m ku kv unfolding mutual_def by auto
  have mux: "\<And>x. x \<in> set (Users st) \<Longrightarrow>
      (user_id x \<in> set (following u)) = (user_id u \<in> set (followers x))"
    and mxu: "\<And>x. x \<in> set (Users st) \<Longrightarrow>
      (user_id u \<in> set (following x)) = (user_id x \<in> set (followers u))"
    and mvx: "\<And>x. x \<in> set (Users st) \<Longrightarrow>
      (user_id x \<in> set (following v)) = (target \<in> set (followers x))"
    and mxv: "\<And>x. x \<in> set (Users st) \<Longrightarrow>
      (target \<in> set (following x)) = (user_id x \<in> set (followers v))"
    and mxy: "\<And>x y. x \<in> set (Users st) \<Longrightarrow> y \<in> set (Users st) \<Longrightarrow>
      (user_id y \<in> set (following x)) = (user_id x \<in> set (followers y))"
    using m ku kv unfolding mutual_def by auto
  show ?thesis
    unfolding mutual_def s
  proof (intro ballI)
    fix a b
    assume a: "a \<in> {u', v'} \<union> {x \<in> set (Users st). user_id x \<noteq> user_id u \<and> user_id x \<noteq> target}"
      and b: "b \<in> {u', v'} \<union> {x \<in> set (Users st). user_id x \<noteq> user_id u \<and> user_id x \<noteq> target}"
    consider "a = u'" | "a = v'"
      | "a \<in> set (Users st)" "user_id a \<noteq> user_id u" "user_id a \<noteq> target"
      using a by auto
    then show "(user_id b \<in> set (following a)) = (user_id a \<in> set (followers b))"
    proof cases
      case 1
      consider "b = u'" | "b = v'"
        | "b \<in> set (Users st)" "user_id b \<noteq> user_id u" "user_id b \<noteq> target"
        using b by auto
      then show ?thesis
      proof cases
        case 1 with \<open>a = u'\<close> iu fu gu ne muu show ?thesis by simp
      next
        case 2 with \<open>a = u'\<close> iu iv t show ?thesis by simp
      next
        case 3 with \<open>a = u'\<close> iu gu mux show ?thesis by simp
      qed
    next
      case 2
      consider "b = u'" | "b = v'"
        | "b \<in> set (Users st)" "user_id b \<noteq> user_id u" "user_id b \<noteq> target"
        using b by auto
      then show ?thesis
      proof cases
        case 1 with \<open>a = v'\<close> iu iv fu fv mvu show ?thesis by simp
      next
        case 2 with \<open>a = v'\<close> iv fv gv ne mvv show ?thesis by simp
      next
        case 3 with \<open>a = v'\<close> iv fv mvx show ?thesis by simp
      qed
    next
      case 3
      consider "b = u'" | "b = v'"
        | "b \<in> set (Users st)" "user_id b \<noteq> user_id u" "user_id b \<noteq> target"
        using b by auto
      then show ?thesis
      proof cases
        case 1 with 3 iu fu mxu show ?thesis by simp
      next
        case 2 with 3 iv gv mxv show ?thesis by simp
      next
        case 3 with \<open>a \<in> set (Users st)\<close> mxy show ?thesis by simp
      qed
    qed
  qed
qed

section \<open>Pagination\<close>

lemma hasNext_iff:
  assumes "0 < limit"
  shows "(page * limit < int total') \<longleftrightarrow> page < ceil_div (int total') limit"
proof -
  have "page < ceil_div (int total') limit \<longleftrightarrow> real_of_int page < real total' / real_of_int limit"
    by (simp add: ceil_div_ceiling less_ceiling_iff)
  also have "\<dots> \<longleftrightarrow> real_of_int page * real_of_int limit < real total'"
    using assms by (simp add: pos_less_divide_eq)
  also have "\<dots> \<longleftrightarrow> real_of_int (page * limit) < real_of_int (int total')" by simp
  also have "\<dots> \<longleftrightarrow> page * limit < int total'" by (simp only: of_int_less_iff)
  finally show ?thesis by simp
qed

lemma safe_factors:
  fixes page limit :: int
  assumes "0 < page" and "0 < limit" and "page * limit < 2 ^ 53"
  shows "page < 2 ^ 53" and "limit < 2 ^ 53"
    and "0 \<le> (page - 1) * limit" and "(page - 1) * limit < 2 ^ 53"
proof -
  from assms(1,2) have "0 \<le> page" and "0 \<le> limit - 1" by simp_all
  then have "0 \<le> page * (limit - 1)" by (rule mult_nonneg_nonneg)
  then have "page \<le> page * limit" by (simp add: right_diff_distrib)
  with assms(3) show "page < 2 ^ 53" by simp
  from assms(1,2) have "0 \<le> page - 1" and "0 \<le> limit" by simp_all
  then show n: "0 \<le> (page - 1) * limit" by (rule mult_nonneg_nonneg)
  then have "limit \<le> page * limit" by (simp add: left_diff_distrib)
  with assms(3) show "limit < 2 ^ 53" by simp
  have "(page - 1) * limit \<le> page * limit" using assms(2) by (simp add: left_diff_distrib)
  with assms(3) show "(page - 1) * limit < 2 ^ 53" by simp
qed

lemma or_default_positive: "0 < n \<Longrightarrow> n < 2 ^ 53 \<Longrightarrow> or_default (Some n) d = n"
  by (simp add: or_default_def to_double_safe)

lemma skip_positive:
  assumes "0 < page" and "0 < limit" and "page * limit < 2 ^ 53"
  shows "times_js (minus_js page 1) limit = (page - 1) * limit"
proof -
  note f = safe_factors [OF assms]
  have "minus_js page 1 = page - 1" using assms(1) f(1) by (simp add: minus_js_def to_double_safe)
  moreover have "\<bar>(page - 1) * limit\<bar> < 2 ^ 53" using f(3,4) by simp
  ultimately show ?thesis by (simp add: times_js_def to_double_safe)
qed

lemma times_positive:
  assumes "0 < page" and "0 < limit" and "page * limit < 2 ^ 53"
  shows "times_js page limit = page * limit"
proof -
  have "0 < page * limit" using assms(1,2) by simp
  with assms(3) have "\<bar>page * limit\<bar> < 2 ^ 53" by simp
  then show ?thesis by (simp add: times_js_def to_double_safe)
qed

lemma skip_limit_positive:
  assumes "0 < page" and "0 < limit" and "page * limit < 2 ^ 53"
  shows "skip_limit xs (times_js (minus_js page 1) limit) limit =
           Some (take (nat limit) (drop (nat ((page - 1) * limit)) xs))"
proof -
  from safe_factors(3) [OF assms] have n: "\<not> (page - 1) * limit < 0" by linarith
  show ?thesis
    by (simp only: skip_positive [OF assms] skip_limit_def n if_False abs_of_pos [OF assms(2)])
qed

text \<open>
  The pagination object for positive \<open>page\<close> and \<open>limit\<close> whose product is below
  \<open>2^53\<close>, where the arithmetic of the handlers is exact.
\<close>

lemma paginate_fields:
  assumes "0 < page" and "0 < limit" and "page * limit < 2 ^ 53"
  shows "currentPage (paginate page limit total') = page"
    and "totalPages (paginate page limit total') = \<lceil>real total' / real_of_int limit\<rceil>"
    and "totalItems (paginate page limit total') = total'"
    and "hasNext (paginate page limit total') = (page * limit < int total')"
    and "hasPrev (paginate page limit total') = (page > 1)"
    and "hasNext (paginate page limit total') \<longleftrightarrow>
           currentPage (paginate page limit total') < totalPages (paginate page limit total')"
  using hasNext_iff [OF assms(2), of page total']
  by (simp_all add: paginate_def ceil_div_ceiling times_positive [OF assms])

text \<open>
  The five list routes that count the matching documents answer with this object,
  \<open>total\<close> being the number of documents that match the filter of the route.
\<close>

lemma counted_routes_paginate:
  assumes p: "0 < page" and l: "0 < limit" and s: "page * limit < 2 ^ 53"
  shows "\<exists>found. get_blogs text_search st q (Some page) (Some limit) =
           (200, BlogList found
              (paginate page limit (length (filter (blog_filter text_search q) (Blogs st)))))"
    and "\<exists>found. get_blogs_user st req_user uid (Some page) (Some limit) =
           (200, BlogList found
              (paginate page limit
                 (length (filter (\<lambda>b. author b = uid \<and>
                      ((case req_user of None \<Rightarrow> False | Some u \<Rightarrow> user_id u = uid) \<or>
                       (status b = ''published'' \<and> isPublic b = True))) (Blogs st)))))"
    and "\<exists>vs. get_comments_blog st bid (Some page) (Some limit) =
           (200, CommentList vs
              (paginate page limit
                 (length (filter (\<lambda>c. comment_blog c = bid \<and> parentComment c = None \<and>
                                        isDeleted c = False) (Comments st)))))"
    and "\<exists>found. get_comments_user st uid (Some page) (Some limit) =
           (200, UserCommentList found
              (paginate page limit
                 (length (filter (\<lambda>c. comment_author c = uid \<and> isDeleted c = False)
                            (Comments st)))))"
    and "\<exists>found. get_users regex_i by_username st None sort_param (Some page) (Some limit) =
           (200, UserList found (paginate page limit (length (Users st))))"
proof -
  note f = safe_factors [OF p l s]
  note d = or_default_positive [OF p f(1)] or_default_positive [OF l f(2)]
    skip_limit_positive [OF p l s]
  show "\<exists>found. get_blogs text_search st q (Some page) (Some limit) =
           (200, BlogList found
              (paginate page limit (length (filter (blog_filter text_search q) (Blogs st)))))"
    by (simp add: get_blogs_def Let_def d)
  show "\<exists>found. get_blogs_user st req_user uid (Some page) (Some limit) =
           (200, BlogList found
              (paginate page limit
                 (length (filter (\<lambda>b. author b = uid \<and>
                      ((case req_user of None \<Rightarrow> False | Some u \<Rightarrow> user_id u = uid) \<or>
                       (status b = ''published'' \<and> isPublic b = True))) (Blogs st)))))"
    by (simp add: get_blogs_user_def Let_def d)
  show "\<exists>vs. get_comments_blog st bid (Some page) (Some limit) =
           (200, CommentList vs
              (paginate page limit
                 (length (filter (\<lambda>c. comment_blog c = bid \<and> parentComment c = None \<and>
                                        isDeleted c = False) (Comments st)))))"
    by (simp add: get_comments_blog_def Let_def d)
  show "\<exists>found. get_comments_user st uid (Some page) (Some limit) =
           (200, UserCommentList found
              (paginate page limit
                 (length (filter (\<lambda>c. comment_author c = uid \<and> isDeleted c = False)
                            (Comments st)))))"
    by (simp add: get_comments_user_def Let_def d)
  show "\<exists>found. get_users regex_i by_username st None sort_param (Some page) (Some limit) =
           (200, UserList found (paginate page limit (length (Users st))))"
    by (simp add: get_users_def Let_def d)
qed

text \<open>
  The followers and following routes take \<open>total\<close> from the populated array, which is
  one page long at most: whatever the number of followers, they report one page at most
  and no next page.
\<close>

lemma populated_page:
  assumes p: "0 < page" and l: "0 < limit" and s: "page * limit < 2 ^ 53"
  shows "\<exists>populated. populate_users coll ids (times_js (minus_js page 1) limit) limit = Some populated
           \<and> length populated \<le> nat limit"
  by (simp add: populate_users_def skip_limit_positive [OF p l s])

lemma short_page_pagination:
  assumes p: "0 < page" and l: "0 < limit" and s: "page * limit < 2 ^ 53"
    and n: "n \<le> nat limit"
  shows "totalPages (paginate page limit n) \<le> 1" and "\<not> hasNext (paginate page limit n)"
proof -
  have "real n / real_of_int limit \<le> 1" using n l by (simp add: le_nat_iff)
  then have "\<lceil>real n / real_of_int limit\<rceil> \<le> 1" by (simp add: ceiling_le_one)
  then show "totalPages (paginate page limit n) \<le> 1"
    by (simp add: paginate_fields(2) [OF p l s])
  have "limit \<le> page * limit" using safe_factors(3) [OF p l s] by (simp add: left_diff_distrib)
  moreover have "int n \<le> limit" using n l by simp
  ultimately have "int n \<le> page * limit" by simp
  then show "\<not> hasNext (paginate page limit n)"
    by (simp add: paginate_fields(4) [OF p l s])
qed

lemma followers_total_short:
  assumes p: "0 < page" and l: "0 < limit" and s: "page * limit < 2 ^ 53"
  shows "get_followers st uid (Some page) (Some limit) = (200, UserList found pg) \<Longrightarrow>
           totalItems pg = length found \<and> length found \<le> nat limit \<and>
           totalPages pg \<le> 1 \<and> \<not> hasNext pg"
    and "get_following st uid (Some page) (Some limit) = (200, UserList found pg) \<Longrightarrow>
           totalItems pg = length found \<and> length found \<le> nat limit \<and>
           totalPages pg \<le> 1 \<and> \<not> hasNext pg"
proof -
  note f = safe_factors [OF p l s]
  note d = or_default_positive [OF p f(1)] or_default_positive [OF l f(2)]
  {
    fix ids
    assume a: "(case populate_users (Users st) ids (times_js (minus_js page 1) limit) limit of
                 None \<Rightarrow> (500 :: nat, Message ''Server error'')
               | Some populated \<Rightarrow>
                   (let total' = length populated
                    in (200, UserList populated (paginate page limit total'))))
               = (200, UserList found pg)"
    from populated_page [OF p l s, of "Users st" ids] obtain populated where
      q: "populate_users (Users st) ids (times_js (minus_js page 1) limit) limit = Some populated"
         "length populated \<le> nat limit" by blast
    with a have e: "found = populated" "pg = paginate page limit (length populated)"
      by (auto simp: Let_def)
    with q(2) short_page_pagination [OF p l s q(2)]
    have "totalItems pg = length found \<and> length found \<le> nat limit \<and>
           totalPages pg \<le> 1 \<and> \<not> hasNext pg"
      by (simp add: paginate_def)
  } note core = this
  show "get_followers st uid (Some page) (Some limit) = (200, UserList found pg) \<Longrightarrow>
           totalItems pg = length found \<and> length found \<le> nat limit \<and>
           totalPages pg \<le> 1 \<and> \<not> hasNext pg"
    using core [of "followers (the (findById user_id (Users st) uid))"]
    by (cases "findById user_id (Users st) uid") (simp_all add: get_followers_def Let_def d)
  show "get_following st uid (Some page) (Some limit) = (200, UserList found pg) \<Longrightarrow>
           totalItems pg = length found \<and> length found \<le> nat limit \<and>
           totalPages pg \<le> 1 \<and> \<not> hasNext pg"
    using core [of "following (the (findById user_id (Users st) uid))"]
    by (cases "findById user_id (Users st) uid") (simp_all add: get_following_def Let_def d)
qed

text \<open>The double nearest to \<open>2^53 + 1\<close> is \<open>2^53\<close>: a page that large is echoed rounded.\<close>

lemma to_double_example: "to_double 9007199254740993 = 9007199254740992"
  by code_simp

text \<open>
  C9, on the followers and following routes: alice has two followers and bob follows two
  users. Asked for page 1 in pages of 1, both routes answer with one user and a pagination
  object of \<open>total\<close> 1, one page and no next page, where two matching documents give two
  pages and a next one. The route that lists all users counts the three matching accounts
  and reports three pages and a next one.
\<close>

theorem followers_total_is_the_page_length:
  "map_option followers (findById user_id (Users store1) 1) = Some [2, 3] \<and>
   get_followers store1 1 (Some 1) (Some 1) =
     (200, UserList [carol\<lparr>following := [1], followers := [2]\<rparr>]
             \<lparr>currentPage = 1, totalPages = 1, totalItems = 1, hasNext = False,
              hasPrev = False\<rparr>) \<and>
   map_option following (findById user_id (Users store1) 2) = Some [1, 3] \<and>
   get_following store1 2 (Some 1) (Some 1) =
     (200, UserList [carol\<lparr>following := [1], followers := [2]\<rparr>]
             \<lparr>currentPage = 1, totalPages = 1, totalItems = 1, hasNext = False,
              hasPrev = False\<rparr>) \<and>
   paginate 1 1 2 =
     \<lparr>currentPage = 1, totalPages = 2, totalItems = 2, hasNext = True, hasPrev = False\<rparr> \<and>
   get_users (\<lambda>p. None) (\<lambda>us. us) store1 None None (Some 1) (Some 1) =
     (200, UserList [carol\<lparr>following := [1], followers := [2]\<rparr>]
             \<lparr>currentPage = 1, totalPages = 3, totalItems = 3, hasNext = True,
              hasPrev = False\<rparr>)"
proof -
  have u: "Users store1 = [alice\<lparr>followers := [2, 3]\<rparr>, bob\<lparr>following := [1, 3]\<rparr>,
                            carol\<lparr>following := [1], followers := [2]\<rparr>]"
    by (simp add: store1_def)
  have a: "map_option followers (findById user_id (Users store1) 1) = Some [2, 3]"
    and b: "map_option following (findById user_id (Users store1) 2) = Some [1, 3]"
    by (simp_all add: u findById_def alice_def bob_def carol_def)
  have c: "get_followers store1 1 (Some 1) (Some 1) =
     (200, UserList [carol\<lparr>following := [1], followers := [2]\<rparr>]
             \<lparr>currentPage = 1, totalPages = 1, totalItems = 1, hasNext = False,
              hasPrev = False\<rparr>)"
    by (simp add: get_followers_def populate_users_def number_defs skip_limit_def
        newest_first_def findById_def u alice_def bob_def carol_def paginate_def ceil_div_def
        Let_def)
  have d: "get_following store1 2 (Some 1) (Some 1) =
     (200, UserList [carol\<lparr>following := [1], followers := [2]\<rparr>]
             \<lparr>currentPage = 1, totalPages = 1, totalItems = 1, hasNext = False,
              hasPrev = False\<rparr>)"
    by (simp add: get_following_def populate_users_def number_defs skip_limit_def
        newest_first_def findById_def u alice_def bob_def carol_def paginate_def ceil_div_def
        Let_def)
  have e: "paginate 1 1 2 =
     \<lparr>currentPage = 1, totalPages = 2, totalItems = 2, hasNext = True, hasPrev = False\<rparr>"
    by (simp add: paginate_def ceil_div_def number_defs)
  have f: "get_users (\<lambda>p. None) (\<lambda>us. us) store1 None None (Some 1) (Some 1) =
     (200, UserList [carol\<lparr>following := [1], followers := [2]\<rparr>]
             \<lparr>currentPage = 1, totalPages = 3, totalItems = 3, hasNext = True,
              hasPrev = False\<rparr>)"
    by (simp add: get_users_def number_defs skip_limit_def newest_first_def u alice_def bob_def
        carol_def paginate_def ceil_div_def Let_def)
  from a b c d e f show ?thesis by simp
qed

section \<open>Read time and excerpt\<close>

lemma split_ws_nonempty: "split_ws s \<noteq> []"
  by (induction s rule: split_ws.induct) (auto split: list.splits)

lemma ws_runs_dropWhile: "ws_runs (c # cs) = (if is_space c then 1 else 0) + ws_runs (dropWhile is_space cs)"
  if "is_space c" for c cs
  using that
proof (induction cs arbitrary: c)
  case Nil
  then show ?case by simp
next
  case (Cons d ds)
  then show ?case by (cases "is_space d") auto
qed

lemma split_ws_count: "length (split_ws s) = Suc (ws_runs s)"
proof (induction s rule: split_ws.induct)
  case 1
  show ?case by simp
next
  case (2 c cs)
  show ?case
  proof (cases "is_space c")
    case True
    with 2 ws_runs_dropWhile [OF True, of cs] show ?thesis by simp
  next
    case False
    with 2 have ih: "length (split_ws cs) = Suc (ws_runs cs)" by simp
    have "ws_runs (c # cs) = ws_runs cs" using False by (cases cs) auto
    with ih False show ?thesis by (auto split: list.splits)
  qed
qed

lemma split_ws_pieces: "p \<in> set (split_ws s) \<Longrightarrow> c \<in> set p \<Longrightarrow> \<not> is_space c"
proof (induction s arbitrary: p rule: split_ws.induct)
  case 1
  then show ?case by simp
next
  case (2 d ds)
  show ?case
  proof (cases "is_space d")
    case True
    with 2 show ?thesis by auto
  next
    case False
    from split_ws_nonempty [of ds] obtain q qs where q: "split_ws ds = q # qs"
      by (cases "split_ws ds") auto
    with False "2.prems" have "p = d # q \<or> p \<in> set qs" by auto
    then show ?thesis
    proof
      assume "p = d # q"
      with "2.prems" have "c = d \<or> c \<in> set q" by auto
      with False "2.IH"(2) [OF False, of q] q show ?thesis by auto
    next
      assume "p \<in> set qs"
      with "2.IH"(2) [OF False, of p] q "2.prems" False show ?thesis by auto
    qed
  qed
qed

lemma set_strip_tags: "set (strip_tags s) \<subseteq> set s"
proof (induction s rule: strip_tags.induct)
  case 1
  show ?case by simp
next
  case (2 c cs)
  show ?case
  proof (cases "c = LT \<and> GT \<in> set cs")
    case True
    have "set (tl (dropWhile (\<lambda>d. d \<noteq> GT) cs)) \<subseteq> set cs"
      by (metis (no_types, lifting) list.sel(2) list.set_sel(2) set_dropWhileD subsetI)
    with True 2 show ?thesis by auto
  next
    case False
    with 2 show ?thesis by auto
  qed
qed

lemma strip_tags_no_tag:
  "strip_tags s = xs @ LT # ys \<Longrightarrow> GT \<notin> set ys"
proof (induction s arbitrary: xs rule: strip_tags.induct)
  case 1
  then show ?case by simp
next
  case (2 c cs)
  show ?case
  proof (cases "c = LT \<and> GT \<in> set cs")
    case True
    with 2 show ?thesis by simp
  next
    case False
    with "2.prems" have e: "c # strip_tags cs = xs @ LT # ys" by simp
    show ?thesis
    proof (cases xs)
      case Nil
      with e have "c = LT" "ys = strip_tags cs" by simp_all
      with False set_strip_tags [of cs] show ?thesis by auto
    next
      case (Cons x xs')
      with e have "strip_tags cs = xs' @ LT # ys" by simp
      with "2.IH"(2) False show ?thesis by blast
    qed
  qed
qed

lemma strip_tags_plain: "LT \<notin> set s \<Longrightarrow> strip_tags s = s"
  by (induction s) auto

lemma readTime_pre_save:
  "readTime (pre_save True b) = \<lceil>real (length (split_ws (content b))) / 200\<rceil>"
  by (simp add: pre_save_def generateExcerpt_def calculateReadTime_def Let_def ceil_div_ceiling)

lemma excerpt_pre_save:
  "excerpt (pre_save True b) =
     (if length (strip_tags (content b)) > 300
      then take 297 (strip_tags (content b)) @ js ''...''
      else strip_tags (content b))"
  by (simp add: pre_save_def generateExcerpt_def calculateReadTime_def Let_def)

lemma pre_save_rest:
  "pre_save True b = b\<lparr>readTime := readTime (pre_save True b), excerpt := excerpt (pre_save True b)\<rparr>"
  by (simp add: pre_save_def generateExcerpt_def calculateReadTime_def Let_def)

lemma findById_inserted:
  "findById key coll (key d) = None \<Longrightarrow> findById key (coll @ [d]) (key d) = Some d"
  unfolding findById_def by (induction coll) (simp_all split: if_splits)

lemma post_blog_created:
  assumes "fst (snd (post_blog st u errors body' nid now)) = 201"
  shows "findById blog_id (Blogs (fst (post_blog st u errors body' nid now))) nid =
           Some (pre_save True (new_blog u body' nid now))"
proof -
  let ?b = "pre_save True (new_blog u body' nid now)"
  have k: "blog_id ?b = nid"
    by (simp add: pre_save_def generateExcerpt_def calculateReadTime_def Let_def new_blog_def)
  from assms have fresh: "nid \<notin> set (map blog_id (Blogs st))"
    and r: "Blogs (fst (post_blog st u errors body' nid now)) = Blogs st @ [?b]"
    by (auto simp: post_blog_def insert_doc_def Let_def k split: if_splits)
  from fresh have "findById blog_id (Blogs st) (blog_id ?b) = None"
    by (simp add: findById_None k)
  from findById_inserted [OF this] show ?thesis using k by (simp add: r)
qed

lemma put_blog_updated:
  assumes "findById blog_id (Blogs st) bid = Some b"
    and "fst (snd (put_blog st u errors bid body')) = 200"
  shows "findById blog_id (Blogs (fst (put_blog st u errors bid body'))) bid =
           Some (pre_save (content (apply_updates b body') \<noteq> content b) (apply_updates b body'))"
proof -
  let ?m = "content (apply_updates b body') \<noteq> content b"
  let ?b = "pre_save ?m (apply_updates b body')"
  have k0: "blog_id b = bid" using findById_Some [OF assms(1)] by simp
  have k: "blog_id ?b = bid"
    using k0 by (simp add: pre_save_def generateExcerpt_def calculateReadTime_def Let_def apply_updates_def)
  from assms have r: "Blogs (fst (put_blog st u errors bid body')) = replace_doc blog_id (Blogs st) ?b"
    by (auto simp: put_blog_def save_blog_def Let_def split: if_splits)
  have "findById blog_id (replace_doc blog_id (Blogs st) ?b) (blog_id ?b) = Some ?b"
    unfolding findById_replace_same using assms(1) k by simp
  then show ?thesis using k by (simp add: r)
qed

lemma excerpt_bounded: "length (excerpt (pre_save True b)) \<le> 300"
  by (simp add: excerpt_pre_save js_def)

text \<open>
  What the pre-save hook does. When the content is not modified the hook returns the blog
  as it is. When it is modified the hook sets \<open>readTime\<close> to the ceiling of the number
  of pieces that \<open>split(/\s+/)\<close> returns divided by 200, one piece more than there are
  runs of white space; it sets \<open>excerpt\<close> to the content with its tags stripped, cut to
  its first 297 code units followed by \<open>...\<close> when the stripped text is longer than
  300 and whole otherwise; and it changes nothing else. A blog that \<open>POST /api/blogs\<close>
  creates is stored as the hook leaves it with the content modified, and a blog that
  \<open>PUT /api/blogs/:id\<close> updates is stored as the hook leaves it, the content being
  modified when the request changed it.
\<close>

lemma pre_save_effect:
  "pre_save False b = b \<and>
   readTime (pre_save True b) = \<lceil>real (length (split_ws (content b))) / 200\<rceil> \<and>
   length (split_ws (content b)) = Suc (ws_runs (content b)) \<and>
   excerpt (pre_save True b) =
     (if length (strip_tags (content b)) > 300
      then take 297 (strip_tags (content b)) @ js ''...''
      else strip_tags (content b)) \<and>
   pre_save True b =
     b\<lparr>readTime := readTime (pre_save True b), excerpt := excerpt (pre_save True b)\<rparr> \<and>
   (fst (snd (post_blog st u errors body' nid now)) = 201 \<longrightarrow>
      findById blog_id (Blogs (fst (post_blog st u errors body' nid now))) nid =
        Some (pre_save True (new_blog u body' nid now))) \<and>
   (findById blog_id (Blogs st) bid = Some b0 \<and>
    fst (snd (put_blog st u errors bid body')) = 200 \<longrightarrow>
      findById blog_id (Blogs (fst (put_blog st u errors bid body'))) bid =
        Some (pre_save (content (apply_updates b0 body') \<noteq> content b0)
                (apply_updates b0 body')))"
proof (intro conjI impI)
  show "pre_save False b = b" by (simp add: pre_save_def)
  show "readTime (pre_save True b) = \<lceil>real (length (split_ws (content b))) / 200\<rceil>"
    by (rule readTime_pre_save)
  show "length (split_ws (content b)) = Suc (ws_runs (content b))"
    by (rule split_ws_count)
  show "excerpt (pre_save True b) =
     (if length (strip_tags (content b)) > 300
      then take 297 (strip_tags (content b)) @ js ''...''
      else strip_tags (content b))"
    by (rule excerpt_pre_save)
  show "pre_save True b =
     b\<lparr>readTime := readTime (pre_save True b), excerpt := excerpt (pre_save True b)\<rparr>"
    by (rule pre_save_rest)
next
  assume "fst (snd (post_blog st u errors body' nid now)) = 201"
  then show "findById blog_id (Blogs (fst (post_blog st u errors body' nid now))) nid =
        Some (pre_save True (new_blog u body' nid now))"
    by (rule post_blog_created)
next
  assume "findById blog_id (Blogs st) bid = Some b0 \<and>
    fst (snd (put_blog st u errors bid body')) = 200"
  then show "findById blog_id (Blogs (fst (put_blog st u errors bid body'))) bid =
        Some (pre_save (content (apply_updates b0 body') \<noteq> content b0)
                (apply_updates b0 body'))"
    using put_blog_updated by blast
qed

text \<open>
  On the small store: alice creates a blog of three tokens, stored with a read time of
  one minute and the stripped content as excerpt; then she changes the title of her
  first blog, whose read time and excerpt stay as they are.
\<close>

lemmas text_defs = js_def is_space_def LT_def GT_def trim_def

lemma blog_id_pre_save: "blog_id (pre_save m b) = blog_id b"
  by (simp add: pre_save_def generateExcerpt_def calculateReadTime_def Let_def)

lemma blog_id_new_blog: "blog_id (new_blog u body' nid now) = nid"
  by (simp add: new_blog_def)

lemma first_post_new_blog:
  "new_blog alice first_post 12 300 =
     \<lparr>blog_id = 12, title = js ''New'', content = js ''<h1>Title</h1> one two'', excerpt = [],
      author = 1, tags = [], category = ''Travel'', featuredImage = [], status = ''draft'',
      isPublic = True, likes = [], views = 0, readTime = 0, blog_seo = None, comments = [],
      createdAt = 300\<rparr>"
  by (simp add: new_blog_def first_post_def alice_def text_defs)

lemma first_post_split:
  "split_ws (js ''<h1>Title</h1> one two'') = [js ''<h1>Title</h1>'', js ''one'', js ''two'']"
  by (simp add: text_defs)

lemma first_post_strip: "strip_tags (js ''<h1>Title</h1> one two'') = js ''Title one two''"
  by (simp add: text_defs)

lemma first_post_valid: "validate_new (new_blog alice first_post 12 300)"
  by (simp add: first_post_new_blog validate_new_def title_ok_def content_ok_def excerpt_ok_def
      tags_ok_def category_ok_def status_ok_def categories_def statuses_def js_def)

lemma first_post_created: "fst (snd (post_blog store0 alice [] first_post 12 300)) = 201"
  using first_post_valid
  by (simp add: post_blog_def insert_doc_def Let_def blog_id_pre_save blog_id_new_blog)
    (simp add: store0_def post10_def draft11_def)

lemma first_post_saved:
  "pre_save True (new_blog alice first_post 12 300) =
     (new_blog alice first_post 12 300)\<lparr>readTime := 1, excerpt := js ''Title one two''\<rparr>"
  by (simp add: first_post_new_blog pre_save_def generateExcerpt_def calculateReadTime_def Let_def
      first_post_split first_post_strip ceil_div_def) (simp add: js_def)

lemma post10_found: "findById blog_id (Blogs store0) 10 = Some post10"
  by (simp add: findById_def store0_defs)

lemma retitle_applied: "apply_updates post10 retitle = post10\<lparr>title := js ''Hello again''\<rparr>"
  by (simp add: apply_updates_def retitle_def text_defs)

lemma retitle_valid: "validate_modified post10 (post10\<lparr>title := js ''Hello again''\<rparr>)"
  by (simp add: validate_modified_def title_ok_def js_def)

lemma retitle_updated: "fst (snd (put_blog store0 alice [] 10 retitle)) = 200"
proof -
  have "author post10 = user_id alice" by (simp add: post10_def alice_def)
  with retitle_valid show ?thesis by (simp add: put_blog_found [OF post10_found] retitle_applied)
qed

lemma pre_save_effect_example:
  "fst (snd (post_blog store0 alice [] first_post 12 300)) = 201 \<and>
   map_option (\<lambda>b. (title b, readTime b, excerpt b))
     (findById blog_id (Blogs (fst (post_blog store0 alice [] first_post 12 300))) 12)
     = Some (js ''New'', 1, js ''Title one two'') \<and>
   findById blog_id (Blogs store0) 10 = Some post10 \<and>
   fst (snd (put_blog store0 alice [] 10 retitle)) = 200 \<and>
   map_option (\<lambda>b. (title b, readTime b, excerpt b))
     (findById blog_id (Blogs (fst (put_blog store0 alice [] 10 retitle))) 10)
     = Some (js ''Hello again'', 1, js ''Hello world'')"
proof -
  note h1 = first_post_created and h2 = post10_found and h3 = retitle_updated
  note t1 = pre_save_effect [of post10 store0 alice "[]" first_post 12 300 10 post10]
  from t1 h1
  have c: "findById blog_id (Blogs (fst (post_blog store0 alice [] first_post 12 300))) 12 =
             Some (pre_save True (new_blog alice first_post 12 300))"
    by blast
  note t2 = pre_save_effect [of post10 store0 alice "[]" retitle 12 300 10 post10]
  from t2 h2 h3
  have d: "findById blog_id (Blogs (fst (put_blog store0 alice [] 10 retitle))) 10 =
             Some (pre_save (content (apply_updates post10 retitle) \<noteq> content post10)
                     (apply_updates post10 retitle))"
    by blast
  have e: "map_option (\<lambda>b. (title b, readTime b, excerpt b))
     (findById blog_id (Blogs (fst (post_blog store0 alice [] first_post 12 300))) 12)
     = Some (js ''New'', 1, js ''Title one two'')"
    by (simp add: c first_post_saved) (simp add: first_post_new_blog)
  have f: "map_option (\<lambda>b. (title b, readTime b, excerpt b))
     (findById blog_id (Blogs (fst (put_blog store0 alice [] 10 retitle))) 10)
     = Some (js ''Hello again'', 1, js ''Hello world'')"
    by (simp add: d retitle_applied pre_save_def) (simp add: post10_def)
  from h1 e h2 h3 f show ?thesis by blast
qed

subsection \<open>Tokens and pieces\<close>

lemma ws_tokens_dropWhile: "ws_tokens (dropWhile is_space s) = ws_tokens s"
  by (induction s) auto

lemma dropWhile_space_last:
  "dropWhile is_space s \<noteq> [] \<Longrightarrow> last (dropWhile is_space s) = last s"
  by (induction s) (auto split: if_splits)

lemma dropWhile_space_empty: "s \<noteq> [] \<Longrightarrow> dropWhile is_space s = [] \<Longrightarrow> is_space (last s)"
  by (induction s) (auto split: if_splits)

lemma dropWhile_space_hd: "dropWhile is_space s \<noteq> [] \<Longrightarrow> \<not> is_space (hd (dropWhile is_space s))"
  using hd_dropWhile by blast

lemma ws_tokens_word:
  "\<not> is_space c \<Longrightarrow>
   length (ws_tokens (c # cs)) =
     length (ws_tokens cs) + (if cs = [] \<or> is_space (hd cs) then 1 else 0)"
  by (cases cs) auto

text \<open>
  The pieces of \<open>split(/\s+/)\<close> against the tokens: one piece for each token, one more
  when the string is empty or starts with white space, and one more when it ends with
  white space.
\<close>

lemma split_ws_tokens_count:
  "length (split_ws s) =
     length (ws_tokens s) + (if s = [] \<or> is_space (hd s) then 1 else 0)
       + (if s \<noteq> [] \<and> is_space (last s) then 1 else 0)"
proof (induction s rule: split_ws.induct)
  case 1
  show ?case by simp
next
  case (2 c cs)
  show ?case
  proof (cases "is_space c")
    case True
    let ?d = "dropWhile is_space cs"
    from 2 True have ih: "length (split_ws ?d) =
       length (ws_tokens ?d) + (if ?d = [] \<or> is_space (hd ?d) then 1 else 0)
       + (if ?d \<noteq> [] \<and> is_space (last ?d) then 1 else 0)" by simp
    have t: "ws_tokens (c # cs) = ws_tokens ?d" using True by (simp add: ws_tokens_dropWhile)
    show ?thesis
    proof (cases "?d = []")
      case e: True
      have "is_space (last (c # cs))"
        using True e dropWhile_space_empty [of cs] by (cases "cs = []") auto
      with True e ih t show ?thesis by simp
    next
      case ne: False
      then have "cs \<noteq> []" by auto
      with ne have "last ?d = last (c # cs)" by (simp add: dropWhile_space_last)
      with True ne ih t dropWhile_space_hd [OF ne] show ?thesis by simp
    qed
  next
    case False
    with 2 have ih: "length (split_ws cs) =
       length (ws_tokens cs) + (if cs = [] \<or> is_space (hd cs) then 1 else 0)
       + (if cs \<noteq> [] \<and> is_space (last cs) then 1 else 0)" by simp
    from split_ws_nonempty [of cs] obtain p ps where "split_ws cs = p # ps"
      by (cases "split_ws cs") auto
    with False have l: "length (split_ws (c # cs)) = length (split_ws cs)" by simp
    have "(if c # cs \<noteq> [] \<and> is_space (last (c # cs)) then 1 else 0) =
          (if cs \<noteq> [] \<and> is_space (last cs) then 1 else (0::nat))"
      using False by auto
    with False l ih ws_tokens_word [OF False, of cs] show ?thesis by simp
  qed
qed

lemma padded_Suc: "padded (Suc n) = 0x20 # 0x77 # padded n"
  by (simp add: padded_def js_def)

lemma padded_0: "padded 0 = [0x20]"
  by (simp add: padded_def js_def)

lemma space_20: "is_space 0x20" and letter_77: "\<not> is_space 0x77"
  by (simp_all add: is_space_def)

lemma split_ws_padded: "split_ws (padded n) = [] # replicate n [0x77] @ [[]]"
proof (induction n)
  case 0
  show ?case by (simp add: padded_0 space_20)
next
  case (Suc n)
  have "split_ws (padded (Suc n)) = [] # split_ws (0x77 # padded n)"
    by (simp add: padded_Suc space_20 letter_77)
  also have "split_ws (0x77 # padded n) = [0x77] # replicate n [0x77] @ [[]]"
    using Suc by (simp add: letter_77)
  finally show ?case by simp
qed

lemma padded_starts: "padded n \<noteq> [] \<and> is_space (hd (padded n))"
  by (cases n) (simp_all add: padded_0 padded_Suc space_20)

lemma ws_tokens_padded: "ws_tokens (padded n) = replicate n [0x77]"
proof (induction n)
  case 0
  show ?case by (simp add: padded_0 space_20)
next
  case (Suc n)
  from padded_starts [of n] obtain c cs where p: "padded n = c # cs" "is_space c"
    by (cases "padded n") auto
  have "ws_tokens (padded (Suc n)) = ws_tokens (0x77 # padded n)"
    by (simp add: padded_Suc space_20)
  also have "\<dots> = [0x77] # ws_tokens (padded n)"
    using p by (simp add: letter_77)
  finally show ?case using Suc by simp
qed

lemma readTime_calc: "readTime (pre_save True b) = ceil_div (int (length (split_ws (content b)))) 200"
  by (simp add: pre_save_def generateExcerpt_def calculateReadTime_def Let_def)

text \<open>
  C6, on the read time: a content of 199 words, with a space before each and one at the
  end, has 199 white-space-separated tokens, for which the ceiling of the count divided
  by 200 is one minute; \<open>split(/\s+/)\<close> returns 201 pieces, the two empty ones at the
  ends included, and the hook stores two minutes. A content of one space has no token and
  is stored with one minute.
\<close>

theorem read_time_counts_empty_pieces:
  "length (ws_tokens (padded 199)) = 199 \<and>
   ceil_div (int (length (ws_tokens (padded 199)))) 200 = 1 \<and>
   readTime (pre_save True (post10\<lparr>content := padded 199\<rparr>)) = 2 \<and>
   length (ws_tokens (js '' '')) = 0 \<and>
   ceil_div (int (length (ws_tokens (js '' '')))) 200 = 0 \<and>
   readTime (pre_save True (post10\<lparr>content := js '' ''\<rparr>)) = 1"
proof -
  have a: "length (ws_tokens (padded 199)) = 199" by (simp add: ws_tokens_padded)
  have b: "length (split_ws (padded 199)) = 201" by (simp add: split_ws_padded)
  have c: "ws_tokens (js '' '') = []" "split_ws (js '' '') = [[], []]"
    by (simp_all add: js_def is_space_def)
  from a b c show ?thesis by (simp add: readTime_calc ceil_div_def)
qed

end
